theory Spec2Isabelle
  imports Main "HOL-Library.Sublist" "HOL-Library.Word"
begin

section \<open>Package errors: findings and the finding list\<close>

text \<open>
  \<^verbatim>\<open>type LintRuleError struct { Text string; ID string; ObjectID string; Value any }\<close>

  The payload \<open>Value\<close> has Go's type \<open>any\<close>; its nil value is \<open>None\<close>, and the
  type of the payloads is left open.
\<close>

record 'v LintRuleError =
  Text :: string
  ID :: string
  ObjectID :: string
  Value :: "'v option"

definition EqualsTo :: "'v LintRuleError \<Rightarrow> 'v LintRuleError \<Rightarrow> bool" where
  "EqualsTo l candidate \<longleftrightarrow>
     ID l = ID candidate \<and> Text l = Text candidate \<and> ObjectID l = ObjectID candidate"

definition IsEmpty :: "'v LintRuleError \<Rightarrow> bool" where
  "IsEmpty l \<longleftrightarrow> ID l = [] \<and> Text l = [] \<and> ObjectID l = []"

record 'v LintRuleErrorsList =
  data :: "'v LintRuleError list"

text \<open>
  \<open>Add\<close> returns early on an empty error and on an error that \<open>slices.ContainsFunc\<close>
  finds in the list under \<open>e.EqualsTo\<close>; otherwise it appends.
\<close>

definition Add :: "'v LintRuleErrorsList \<Rightarrow> 'v LintRuleError \<Rightarrow> 'v LintRuleErrorsList" where
  "Add l e =
     (if IsEmpty e then l
      else if list_ex (EqualsTo e) (data l) then l
      else l\<lparr>data := data l @ [e]\<rparr>)"

definition Merge :: "'v LintRuleErrorsList \<Rightarrow> 'v LintRuleErrorsList \<Rightarrow> 'v LintRuleErrorsList" where
  "Merge l e = l\<lparr>data := data l @ data e\<rparr>"

text \<open>The zero value \<open>errors.LintRuleErrorsList{}\<close>.\<close>

definition empty_list :: "'v LintRuleErrorsList" where
  "empty_list = \<lparr>data = []\<rparr>"

text \<open>Two findings with empty key fields that differ in their payload only.\<close>

definition blank_one :: "nat LintRuleError" where
  "blank_one = \<lparr>Text = [], ID = [], ObjectID = [], Value = Some 1\<rparr>"

definition blank_two :: "nat LintRuleError" where
  "blank_two = \<lparr>Text = [], ID = [], ObjectID = [], Value = Some 2\<rparr>"

definition probe_one :: "nat LintRuleError" where
  "probe_one = \<lparr>Text = ''no probe'', ID = ''probes'', ObjectID = ''deploy/a'', Value = Some 1\<rparr>"

definition probe_two :: "nat LintRuleError" where
  "probe_two = \<lparr>Text = ''no probe'', ID = ''probes'', ObjectID = ''deploy/a'', Value = Some 2\<rparr>"


section \<open>Go's \<open>fmt.Sprintf\<close> on a format with no operand\<close>

text \<open>
  \<open>ConvertToError\<close> passes \<open>err.Text\<close> to a \<open>SprintfFunc\<close> as the format string,
  with no operand. What Go's \<open>fmt\<close> package prints then is modelled here after its
  \<open>doPrintf\<close>, with the operand list empty: text is copied up to a \<open>%\<close>; after it
  come flags, an argument index \<open>[n]\<close>, a width, a precision and the verb. \<open>%%\<close>
  prints \<open>%\<close>; every other verb finds no operand and prints \<open>%!v(MISSING)\<close>, or
  \<open>%!v(BADINDEX)\<close> after an argument index; \<open>*\<close> as width or precision prints
  \<open>%!(BADWIDTH)\<close> or \<open>%!(BADPREC)\<close>; a format that ends inside a directive prints
  \<open>%!(NOVERB)\<close>. Strings are byte strings.
\<close>

definition byte :: "char \<Rightarrow> nat" where
  "byte c = of_char c"

definition is_flag :: "char \<Rightarrow> bool" where
  "is_flag c \<longleftrightarrow> c \<in> set ''#0+- ''"

definition is_digit :: "char \<Rightarrow> bool" where
  "is_digit c \<longleftrightarrow> byte CHR ''0'' \<le> byte c \<and> byte c \<le> byte CHR ''9''"

text \<open>
  \<open>parsenum\<close> reads a decimal number; the result is the number, whether one was
  present, and the text after it. A number beyond 1000000 (\<open>tooLarge\<close>) gives up and
  skips to the end of the text it was given.
\<close>

fun parsenum_loop :: "nat \<Rightarrow> bool \<Rightarrow> string \<Rightarrow> nat \<times> bool \<times> string" where
  "parsenum_loop num isnum [] = (num, isnum, [])"
| "parsenum_loop num isnum (c # cs) =
     (if is_digit c
      then (if num > 1000000 then (0, False, [])
            else parsenum_loop (num * 10 + (byte c - byte CHR ''0'')) True cs)
      else (num, isnum, c # cs))"

definition parsenum :: "string \<Rightarrow> nat \<times> bool \<times> string" where
  "parsenum s = parsenum_loop 0 False s"

text \<open>
  \<open>parseArgNumber\<close> is called on text that starts with \<open>[\<close>; it returns how many
  bytes the index takes and whether it is well formed. (The index itself is dropped:
  with no operand it is out of range whatever it is.)
\<close>

definition parseArgNumber :: "string \<Rightarrow> nat \<times> bool" where
  "parseArgNumber fmt =
     (if length fmt < 3 then (1, False)
      else let body = takeWhile (\<lambda>c. c \<noteq> CHR '']'') (tl fmt) in
        if length body = length (tl fmt) then (1, False)
        else (case parsenum body of
                (width, ok, rest) \<Rightarrow> (length body + 2, ok \<and> rest = [])))"

text \<open>
  The position in the format is the text that remains. \<open>argNumber\<close> returns the
  remaining text, \<open>found\<close> (the caller's \<open>afterIndex\<close>) and the flag \<open>goodArgNum\<close>,
  which an index clears since no operand exists.
\<close>

definition argNumber :: "string \<Rightarrow> bool \<Rightarrow> string \<times> bool \<times> bool" where
  "argNumber s good =
     (case s of
        [] \<Rightarrow> (s, False, good)
      | c # cs \<Rightarrow>
          if c \<noteq> CHR ''['' then (s, False, good)
          else (case parseArgNumber s of (wid, ok) \<Rightarrow> (drop wid s, ok, False)))"

text \<open>
  The verb is a rune. \<open>utf8.DecodeRuneInString\<close> reads it and \<open>writeRune\<close> prints it:
  a well-formed UTF-8 sequence is printed as it stands, an ill-formed one consumes one
  byte and prints U+FFFD. \<open>first\<close> gives, for the leading byte, the size of the
  sequence (1 for ASCII, 0 for an invalid leading byte) and the range of the second
  byte.
\<close>

definition continuation :: "char \<Rightarrow> bool" where
  "continuation c \<longleftrightarrow> 0x80 \<le> byte c \<and> byte c \<le> 0xBF"

definition RuneError :: string where
  "RuneError = [CHR 0xEF, CHR 0xBF, CHR 0xBD]"

definition first :: "char \<Rightarrow> nat \<times> nat \<times> nat" where
  "first c = (let b = byte c in
     if b < 0x80 then (1, 0, 0)
     else if b < 0xC2 then (0, 0, 0)
     else if b < 0xE0 then (2, 0x80, 0xBF)
     else if b = 0xE0 then (3, 0xA0, 0xBF)
     else if b < 0xED then (3, 0x80, 0xBF)
     else if b = 0xED then (3, 0x80, 0x9F)
     else if b < 0xF0 then (3, 0x80, 0xBF)
     else if b = 0xF0 then (4, 0x90, 0xBF)
     else if b < 0xF4 then (4, 0x80, 0xBF)
     else if b = 0xF4 then (4, 0x80, 0x8F)
     else (0, 0, 0))"

definition DecodeRuneInString :: "string \<Rightarrow> string \<times> nat" where
  "DecodeRuneInString s =
     (case first (hd s) of (sz, lo, hi) \<Rightarrow>
        if sz = 1 then ([hd s], 1)
        else if sz = 0 then (RuneError, 1)
        else if length s < sz then (RuneError, 1)
        else if byte (s ! 1) < lo \<or> hi < byte (s ! 1) then (RuneError, 1)
        else if sz \<le> 2 then (take 2 s, 2)
        else if \<not> continuation (s ! 2) then (RuneError, 1)
        else if sz \<le> 3 then (take 3 s, 3)
        else if \<not> continuation (s ! 3) then (RuneError, 1)
        else (take 4 s, 4))"

text \<open>
  One directive, in the three steps of \<open>doPrintf\<close> after the flags and the first
  argument index: the width, the precision, the verb. A cursor is the remaining text
  with \<open>afterIndex\<close> and \<open>goodArgNum\<close>; each step also returns what it printed.
\<close>

type_synonym cursor = "string \<times> bool \<times> bool"

definition width_stage :: "cursor \<Rightarrow> string \<times> cursor" where
  "width_stage cur =
     (case cur of (s, afterIndex, good) \<Rightarrow>
        (case s of
           [] \<Rightarrow> ([], s, afterIndex, good)
         | c # cs \<Rightarrow>
             if c = CHR ''*'' then (''%!(BADWIDTH)'', cs, False, good)
             else (case parsenum s of (wid, widPresent, rest) \<Rightarrow>
                    ([], rest, afterIndex, good \<and> \<not> (afterIndex \<and> widPresent)))))"

definition precision_stage :: "cursor \<Rightarrow> string \<times> cursor" where
  "precision_stage cur =
     (case cur of (s, afterIndex, good) \<Rightarrow>
        (case s of
           [] \<Rightarrow> ([], s, afterIndex, good)
         | c # cs \<Rightarrow>
             if c \<noteq> CHR ''.'' then ([], s, afterIndex, good)
             else (case argNumber cs (good \<and> \<not> afterIndex) of (s', afterIndex', good') \<Rightarrow>
               (case s' of
                  [] \<Rightarrow> ([], s', afterIndex', good')
                | d # ds \<Rightarrow>
                    if d = CHR ''*'' then (''%!(BADPREC)'', ds, False, good')
                    else (case parsenum s' of (prec, precPresent, rest) \<Rightarrow>
                           ([], rest, afterIndex', good'))))))"

text \<open>The verb step returns no remaining text when the format ended before a verb.\<close>

definition verb_stage :: "cursor \<Rightarrow> string \<times> string option" where
  "verb_stage cur =
     (case cur of (s, afterIndex, good) \<Rightarrow>
        (case (if afterIndex then (s, afterIndex, good) else argNumber s good) of
           (s', afterIndex', good') \<Rightarrow>
             if s' = [] then (''%!(NOVERB)'', None)
             else (case DecodeRuneInString s' of (verb, sz) \<Rightarrow>
               (if verb = ''%'' then ''%''
                else if \<not> good' then ''%!'' @ verb @ ''(BADINDEX)''
                else ''%!'' @ verb @ ''(MISSING)'',
                Some (drop sz s')))))"

definition verb_of :: "string \<Rightarrow> string \<times> string option" where
  "verb_of s =
     (case width_stage (argNumber (dropWhile is_flag s) True) of (out1, cur1) \<Rightarrow>
        (case precision_stage cur1 of (out2, cur2) \<Rightarrow>
           (case verb_stage cur2 of (out3, rest) \<Rightarrow> (out1 @ out2 @ out3, rest))))"

text \<open>Every step leaves a suffix of its text, so the loop over the format ends.\<close>

lemma parsenum_loop_shorter: "length (snd (snd (parsenum_loop n b s))) \<le> length s"
  by (induction n b s rule: parsenum_loop.induct) auto

lemma parsenum_shorter: "parsenum s = (n, b, r) \<Longrightarrow> length r \<le> length s"
  using parsenum_loop_shorter [of 0 False s] by (simp add: parsenum_def)

lemma argNumber_shorter: "argNumber s g = (r, a, g') \<Longrightarrow> length r \<le> length s"
  by (auto simp: argNumber_def split: list.splits if_splits prod.splits)

lemma width_stage_shorter:
  "width_stage (s, a, g) = (out, r, a', g') \<Longrightarrow> length r \<le> length s"
  by (auto simp: width_stage_def split: list.splits if_splits prod.splits
      dest: parsenum_shorter)

lemma precision_stage_shorter:
  "precision_stage (s, a, g) = (out, r, a', g') \<Longrightarrow> length r \<le> length s"
  by (auto simp: precision_stage_def split: list.splits if_splits prod.splits
      dest!: parsenum_shorter argNumber_shorter)

lemma verb_stage_shorter:
  "verb_stage (s, a, g) = (out, Some r) \<Longrightarrow> length r \<le> length s"
  by (auto simp: verb_stage_def split: list.splits if_splits prod.splits
      dest!: argNumber_shorter)

lemma verb_of_shorter:
  assumes "verb_of s = (out, Some r)"
  shows "length r \<le> length s"
proof -
  obtain s0 a0 g0 where c0: "argNumber (dropWhile is_flag s) True = (s0, a0, g0)"
    by (cases "argNumber (dropWhile is_flag s) True") auto
  obtain o1 s1 a1 g1 where c1: "width_stage (s0, a0, g0) = (o1, s1, a1, g1)"
    by (cases "width_stage (s0, a0, g0)") auto
  obtain o2 s2 a2 g2 where c2: "precision_stage (s1, a1, g1) = (o2, s2, a2, g2)"
    by (cases "precision_stage (s1, a1, g1)") auto
  obtain o3 where c3: "verb_stage (s2, a2, g2) = (o3, Some r)"
    using assms by (auto simp: verb_of_def c0 c1 c2 split: prod.splits)
  have "length s0 \<le> length (dropWhile is_flag s)"
    using c0 by (rule argNumber_shorter)
  also have "\<dots> \<le> length s"
    by (rule length_dropWhile_le)
  finally have "length s0 \<le> length s" .
  moreover have "length s1 \<le> length s0"
    using c1 by (rule width_stage_shorter)
  moreover have "length s2 \<le> length s1"
    using c2 by (rule precision_stage_shorter)
  moreover have "length r \<le> length s2"
    using c3 by (rule verb_stage_shorter)
  ultimately show ?thesis by linarith
qed

function doPrintf :: "string \<Rightarrow> string" where
  "doPrintf [] = []"
| "doPrintf (c # cs) =
     (if c \<noteq> CHR ''%'' then c # doPrintf cs
      else (case verb_of cs of
              (out, None) \<Rightarrow> out
            | (out, Some rest) \<Rightarrow> out @ doPrintf rest))"
  by pat_completeness auto
termination
proof (relation "measure length")
  fix c cs x1 x2 rest
  assume "(x1, x2) = verb_of cs" "x2 = Some rest"
  then have "verb_of cs = (x1, Some rest)" by simp
  then have "length rest \<le> length cs" by (rule verb_of_shorter)
  then show "(rest, c # cs) \<in> measure length" by simp
qed auto

text \<open>\<open>fmt.Sprintf(format)\<close>, no operand.\<close>

definition Sprintf0 :: "string \<Rightarrow> string" where
  "Sprintf0 fmt = doPrintf fmt"

section \<open>The report: \<open>ConvertToError\<close>\<close>

text \<open>
  The report is built with two libraries whose output depends on the terminal. From
  \<open>fatih/color\<close>, \<open>color.New(a).SprintfFunc()\<close> formats its arguments with
  \<open>fmt.Sprintf\<close> and wraps the result: unchanged when colour is off, between the
  attribute's escape sequences otherwise. From \<open>kyokomi/emoji\<close>,
  \<open>emoji.Sprintf(":monkey:")\<close> is a fixed string. A console holds these, and what
  \<open>%s\<close> prints for a payload.
\<close>

datatype Attribute = FgRed | FgHiBlue

record 'v console =
  no_color :: bool
  color_format :: "Attribute \<Rightarrow> string"
  color_unformat :: "Attribute \<Rightarrow> string"
  monkey :: string
  value_s :: "'v \<Rightarrow> string"

definition wrap :: "'v console \<Rightarrow> Attribute \<Rightarrow> string \<Rightarrow> string" where
  "wrap con a s = (if no_color con then s else color_format con a @ s @ color_unformat con a)"

definition nl :: string where
  "nl = [CHR 0x0A]"

definition tab :: string where
  "tab = [CHR 0x09]"

text \<open>
  One pass of the loop body: the format
  \<^verbatim>\<open>"%s%s\n\tMessage\t- %s\n\tObject\t- %s\n"\<close> with its four string operands, the
  \<open>Value\<close> line when the payload is not nil, and the empty line. The ID goes through
  the format \<^verbatim>\<open>"[#%s]"\<close>; the text is itself the format of its \<open>SprintfFunc\<close>.
\<close>

definition entry_text :: "'v console \<Rightarrow> 'v LintRuleError \<Rightarrow> string" where
  "entry_text con err =
     monkey con @ wrap con FgHiBlue (''[#'' @ ID err @ '']'') @
     nl @ tab @ ''Message'' @ tab @ ''- '' @ wrap con FgRed (Sprintf0 (Text err)) @
     nl @ tab @ ''Object'' @ tab @ ''- '' @ ObjectID err @ nl @
     (case Value err of
        None \<Rightarrow> []
      | Some v \<Rightarrow> tab @ ''Value'' @ tab @ ''- '' @ value_s con v @ nl) @
     nl"

text \<open>The returned \<open>error\<close> is its message; \<open>nil\<close> is \<open>None\<close>.\<close>

definition ConvertToError :: "'v console \<Rightarrow> 'v LintRuleErrorsList \<Rightarrow> string option" where
  "ConvertToError con l =
     (if length (data l) = 0 then None
      else Some (concat (map (entry_text con) (data l))))"

text \<open>
  A console without colour (output that is not a terminal), whose payloads are
  strings, and a finding whose message holds a percent sign.
\<close>

definition plain_console :: "string console" where
  "plain_console =
     \<lparr>no_color = True, color_format = (\<lambda>a. []), color_unformat = (\<lambda>a. []),
      monkey = [CHR 0xF0, CHR 0x9F, CHR 0x90, CHR 0x92, CHR '' ''],
      value_s = (\<lambda>v. v)\<rparr>"

definition limit_finding :: "string LintRuleError" where
  "limit_finding =
     \<lparr>Text = ''limit 80% exceeded'', ID = ''probes'', ObjectID = ''deploy/a'', Value = None\<rparr>"

definition limit_report :: string where
  "limit_report =
     monkey plain_console @ ''[#probes]'' @
     nl @ tab @ ''Message'' @ tab @ ''- limit 80%!e(MISSING)xceeded'' @
     nl @ tab @ ''Object'' @ tab @ ''- deploy/a'' @ nl @ nl"

section \<open>Package manager: the linters and their resolution\<close>

text \<open>
  The interface \<open>Linter\<close> is declared outside the files at hand; its use shows the
  methods \<open>Name()\<close>, \<open>Desc()\<close> and \<open>Run(module)\<close>, the last returning a finding
  list and an \<open>error\<close>. A linter is the record of the three; an error is its message.
\<close>

record ('m, 'v) Linter =
  Name :: string
  Desc :: string
  Run :: "'m \<Rightarrow> string + 'v LintRuleErrorsList"

text \<open>
  \<open>strings.ToLower\<close> on ASCII text, which linter names are: the letters \<open>A\<close> to \<open>Z\<close>
  move to \<open>a\<close> to \<open>z\<close>. (Go also maps the upper-case letters beyond ASCII; bytes
  beyond ASCII stay as they are here.)
\<close>

definition lower_byte :: "char \<Rightarrow> char" where
  "lower_byte c =
     (if byte CHR ''A'' \<le> byte c \<and> byte c \<le> byte CHR ''Z'' then char_of (byte c + 32) else c)"

definition ToLower :: "string \<Rightarrow> string" where
  "ToLower s = map lower_byte s"

text \<open>The fields of \<open>cfg.Linters\<close> that \<open>getEnabledLinters\<close> reads.\<close>

record LintersConfig =
  DisableAll :: bool
  EnableAll :: bool
  Enable :: "string list"
  Disable :: "string list"

text \<open>
  \<open>NewManager\<close> fills \<open>lintersMap\<close> with each linter under its lower-cased name.
\<close>

definition build_lintersMap :: "('m, 'v) Linter list \<Rightarrow> (string \<rightharpoonup> ('m, 'v) Linter)" where
  "build_lintersMap linters =
     fold (\<lambda>linter m. m(ToLower (Name linter) \<mapsto> linter)) linters Map.empty"

text \<open>
  A Go map is a reference. \<open>resultLintersSet\<close> starts as a fresh map and, unless
  \<open>DisableAll\<close> is set, is then assigned \<open>m.lintersMap\<close>: from there on both names
  denote one map, and \<open>delete\<close> on the one removes from the other. The two map objects
  are kept in a store and \<open>resultLintersSet\<close> is a reference into it.
\<close>

datatype map_ref = FreshMap | LintersMap

record 'l maps =
  fresh_map :: "string \<rightharpoonup> 'l"
  lintersMap :: "string \<rightharpoonup> 'l"

definition deref :: "map_ref \<Rightarrow> 'l maps \<Rightarrow> (string \<rightharpoonup> 'l)" where
  "deref r h = (case r of FreshMap \<Rightarrow> fresh_map h | LintersMap \<Rightarrow> lintersMap h)"

definition assign :: "map_ref \<Rightarrow> string \<Rightarrow> 'l \<Rightarrow> 'l maps \<Rightarrow> 'l maps" where
  "assign r k v h =
     (case r of
        FreshMap \<Rightarrow> h\<lparr>fresh_map := (fresh_map h)(k \<mapsto> v)\<rparr>
      | LintersMap \<Rightarrow> h\<lparr>lintersMap := (lintersMap h)(k \<mapsto> v)\<rparr>)"

definition delete :: "map_ref \<Rightarrow> string \<Rightarrow> 'l maps \<Rightarrow> 'l maps" where
  "delete r k h =
     (case r of
        FreshMap \<Rightarrow> h\<lparr>fresh_map := (fresh_map h)(k := None)\<rparr>
      | LintersMap \<Rightarrow> h\<lparr>lintersMap := (lintersMap h)(k := None)\<rparr>)"

text \<open>
  The bodies of the two loops. A name that \<open>m.lintersMap\<close> does not hold reads as nil
  and is skipped. The enable loop lower-cases the name first; the disable loop looks
  the name up as it is written.
\<close>

definition enable_step :: "map_ref \<Rightarrow> string \<Rightarrow> 'l maps \<Rightarrow> 'l maps" where
  "enable_step resultLintersSet name h =
     (let name = ToLower name in
      case lintersMap h name of
        None \<Rightarrow> h
      | Some linter \<Rightarrow> assign resultLintersSet name linter h)"

definition disable_step :: "map_ref \<Rightarrow> string \<Rightarrow> 'l maps \<Rightarrow> 'l maps" where
  "disable_step resultLintersSet name h =
     (case lintersMap h name of
        None \<Rightarrow> h
      | Some linter \<Rightarrow> delete resultLintersSet name h)"

text \<open>
  The result is the set \<open>resultLintersSet\<close> at the end, with \<open>m.lintersMap\<close> as the
  call leaves it. The returned \<open>LinterList\<close> holds the values of that set in the order
  in which Go happens to range over the map.
\<close>

definition getEnabledLinters ::
  "LintersConfig \<Rightarrow> (string \<rightharpoonup> 'l) \<Rightarrow> (string \<rightharpoonup> 'l) \<times> (string \<rightharpoonup> 'l)" where
  "getEnabledLinters cfg lm =
     (let h0 = \<lparr>fresh_map = Map.empty, lintersMap = lm\<rparr>;
          resultLintersSet =
            (if DisableAll cfg then FreshMap
             else if EnableAll cfg then LintersMap
             else LintersMap);
          h1 = fold (enable_step resultLintersSet) (Enable cfg) h0;
          h2 = fold (disable_step resultLintersSet) (Disable cfg) h1
      in (deref resultLintersSet h2, lintersMap h2))"

text \<open>Four linters by name, and the configuration that enables one of them.\<close>

definition stub_linter :: "string \<Rightarrow> (unit, nat) Linter" where
  "stub_linter n = \<lparr>Name = n, Desc = [], Run = (\<lambda>m. Inr empty_list)\<rparr>"

definition stock_linters :: "(unit, nat) Linter list" where
  "stock_linters =
     [stub_linter ''openapi'', stub_linter ''no-cyrillic'', stub_linter ''copyright'',
      stub_linter ''probes'']"

definition only_copyright :: LintersConfig where
  "only_copyright =
     \<lparr>DisableAll = True, EnableAll = False, Enable = [''copyright''], Disable = []\<rparr>"

section \<open>Package manager: module discovery\<close>

text \<open>
  The file system under a search root is a tree. A directory lists its entries by
  name, in the order \<open>filepath.Walk\<close> visits them (lexical). Two kinds of node stand
  for access errors: \<open>NoStat\<close> is a name whose \<open>Lstat\<close> fails, \<open>NoRead\<close> a directory
  whose entries cannot be read.
\<close>

datatype fsnode = File | NoStat | NoRead | Dir "(string \<times> fsnode) list"

datatype fs_error = LstatError | ReadDirError

text \<open>
  The errors a \<open>WalkFunc\<close> returns: \<open>filepath.SkipDir\<close>, or the wrapped error
  \<^verbatim>\<open>fmt.Errorf("file access '%s': %w", path, err)\<close>; \<open>nil\<close> is \<open>None\<close>.
\<close>

datatype walk_error = SkipDir | FileAccess string fs_error

text \<open>
  A \<open>WalkFunc\<close> receives the path, the \<open>FileInfo\<close> and the error of the access, and
  works on a state (the closure's captured variables). The node itself serves as its
  \<open>FileInfo\<close>.
\<close>

type_synonym 's WalkFunc =
  "string \<Rightarrow> fsnode \<Rightarrow> fs_error option \<Rightarrow> 's \<Rightarrow> walk_error option \<times> 's"

definition IsDir :: "fsnode \<Rightarrow> bool" where
  "IsDir info = (case info of Dir es \<Rightarrow> True | NoRead \<Rightarrow> True | _ \<Rightarrow> False)"

text \<open>\<open>filepath.Join\<close> of a clean path and an entry's name.\<close>

definition Join :: "string \<Rightarrow> string \<Rightarrow> string" where
  "Join path name = path @ ''/'' @ name"

text \<open>
  Go's \<open>filepath.walk\<close>. A file is handed to the function. A directory is read, then
  handed to the function together with the read error; when either is an error the
  function's result is returned, so that \<open>SkipDir\<close> ends the directory. Otherwise the
  entries are walked in order: an entry whose \<open>Lstat\<close> fails is handed to the function,
  and any result but \<open>SkipDir\<close> stops the walk; an error from walking an entry stops
  the walk unless it is \<open>SkipDir\<close> from a directory.
\<close>

fun walk :: "'s WalkFunc \<Rightarrow> string \<Rightarrow> fsnode \<Rightarrow> 's \<Rightarrow> walk_error option \<times> 's"
  and walk_names :: "'s WalkFunc \<Rightarrow> string \<Rightarrow> (string \<times> fsnode) list \<Rightarrow> 's \<Rightarrow> walk_error option \<times> 's"
where
  "walk walkFn path (Dir es) st =
     (case walkFn path (Dir es) None st of
        (Some err1, st') \<Rightarrow> (Some err1, st')
      | (None, st') \<Rightarrow> walk_names walkFn path es st')"
| "walk walkFn path NoRead st = walkFn path NoRead (Some ReadDirError) st"
| "walk walkFn path info st = walkFn path info None st"
| "walk_names walkFn path [] st = (None, st)"
| "walk_names walkFn path ((name, info) # names) st =
     (let filename = Join path name in
      if info = NoStat then
        (case walkFn filename info (Some LstatError) st of
           (Some err, st') \<Rightarrow>
             if err \<noteq> SkipDir then (Some err, st') else walk_names walkFn path names st'
         | (None, st') \<Rightarrow> walk_names walkFn path names st')
      else
        (case walk walkFn filename info st of
           (Some err, st') \<Rightarrow>
             if \<not> IsDir info \<or> err \<noteq> SkipDir then (Some err, st')
             else walk_names walkFn path names st'
         | (None, st') \<Rightarrow> walk_names walkFn path names st'))"

text \<open>
  \<open>filepath.Walk\<close>: a root whose \<open>Lstat\<close> fails is handed to the function; \<open>SkipDir\<close>
  at the top is no error.
\<close>

definition Walk :: "'s WalkFunc \<Rightarrow> string \<Rightarrow> fsnode \<Rightarrow> 's \<Rightarrow> walk_error option \<times> 's" where
  "Walk fn root info st =
     (case (if info = NoStat then fn root info (Some LstatError) st else walk fn root info st) of
        (err, st') \<Rightarrow> (if err = Some SkipDir then None else err, st'))"

definition ChartConfigFilename :: string where
  "ChartConfigFilename = ''Chart.yaml''"

definition ModuleYamlFilename :: string where
  "ModuleYamlFilename = ''module.yaml''"

definition HooksDir :: string where
  "HooksDir = ''hooks''"

definition ImagesDir :: string where
  "ImagesDir = ''images''"

text \<open>
  \<open>isExistsOnFilesystem(path, name)\<close> is \<open>os.Stat\<close> of the joined path without error.
  It is only called on the directory being visited, so it is a look at that
  directory's entries.
\<close>

definition isExistsOnFilesystem :: "fsnode \<Rightarrow> string \<Rightarrow> bool" where
  "isExistsOnFilesystem info name =
     (case info of
        Dir es \<Rightarrow> (case map_of es name of None \<Rightarrow> False | Some n \<Rightarrow> n \<noteq> NoStat)
      | _ \<Rightarrow> False)"

text \<open>
  \<open>getModulePaths\<close> of \<open>pkg/manager/manager.go\<close>. Its walk function appends to
  \<open>chartDirs\<close>; it returns \<open>nil\<close> at the root, and \<open>SkipDir\<close> at every other
  directory, with or without \<open>Chart.yaml\<close>.
\<close>

definition visit :: "string \<Rightarrow> string list WalkFunc" where
  "visit modulesDir path info err chartDirs =
     (case err of
        Some e \<Rightarrow> (Some (FileAccess path e), chartDirs)
      | None \<Rightarrow>
          if \<not> IsDir info then (None, chartDirs)
          else if path = modulesDir then (None, chartDirs)
          else (Some SkipDir,
                if isExistsOnFilesystem info ChartConfigFilename then chartDirs @ [path]
                else chartDirs))"

definition getModulePaths :: "string \<Rightarrow> fsnode \<Rightarrow> walk_error + string list" where
  "getModulePaths modulesDir root =
     (case Walk (visit modulesDir) modulesDir root [] of
        (Some err, chartDirs) \<Rightarrow> Inl err
      | (None, chartDirs) \<Rightarrow> Inr chartDirs)"

text \<open>
  The sources hold a second revision of package manager (in the same file as the
  findings package). Its \<open>getModulePaths\<close> has no test for the root and never returns
  \<open>SkipDir\<close>; a directory is recorded when it holds \<open>module.yaml\<close>, or \<open>Chart.yaml\<close>
  together with \<open>hooks\<close> or \<open>images\<close>.
\<close>

definition is_module_v2 :: "fsnode \<Rightarrow> bool" where
  "is_module_v2 info \<longleftrightarrow>
     isExistsOnFilesystem info ModuleYamlFilename \<or>
     (isExistsOnFilesystem info ChartConfigFilename \<and>
       (isExistsOnFilesystem info HooksDir \<or> isExistsOnFilesystem info ImagesDir))"

definition visit_v2 :: "string list WalkFunc" where
  "visit_v2 path info err chartDirs =
     (case err of
        Some e \<Rightarrow> (Some (FileAccess path e), chartDirs)
      | None \<Rightarrow>
          if \<not> IsDir info then (None, chartDirs)
          else (None, if is_module_v2 info then chartDirs @ [path] else chartDirs))"

definition getModulePaths_v2 :: "string \<Rightarrow> fsnode \<Rightarrow> walk_error + string list" where
  "getModulePaths_v2 modulesDir root =
     (case Walk visit_v2 modulesDir root [] of
        (Some err, chartDirs) \<Rightarrow> Inl err
      | (None, chartDirs) \<Rightarrow> Inr chartDirs)"

text \<open>
  For stating what the walks find: the directories of a tree that the second revision
  takes for modules, in walk order; trees without access errors; the node reached
  from a node along a list of names; entries that are files or readable directories;
  and the entries that hold \<open>Chart.yaml\<close>.
\<close>

fun module_dirs :: "string \<Rightarrow> fsnode \<Rightarrow> string list"
  and module_dirs_in :: "string \<Rightarrow> (string \<times> fsnode) list \<Rightarrow> string list"
where
  "module_dirs path (Dir es) =
     (if is_module_v2 (Dir es) then [path] else []) @ module_dirs_in path es"
| "module_dirs path info = []"
| "module_dirs_in path [] = []"
| "module_dirs_in path ((name, info) # names) =
     module_dirs (Join path name) info @ module_dirs_in path names"

fun readable :: "fsnode \<Rightarrow> bool"
  and readable_in :: "(string \<times> fsnode) list \<Rightarrow> bool"
where
  "readable (Dir es) = readable_in es"
| "readable File = True"
| "readable info = False"
| "readable_in [] = True"
| "readable_in ((name, info) # names) = (readable info \<and> readable_in names)"

primrec descend :: "fsnode \<Rightarrow> string list \<Rightarrow> fsnode option" where
  "descend info [] = Some info"
| "descend info (name # names) =
     (case info of
        Dir es \<Rightarrow> (case map_of es name of None \<Rightarrow> None | Some sub \<Rightarrow> descend sub names)
      | _ \<Rightarrow> None)"

definition flat :: "(string \<times> fsnode) list \<Rightarrow> bool" where
  "flat es \<longleftrightarrow> (\<forall>(name, info) \<in> set es. info = File \<or> (\<exists>sub. info = Dir sub))"

definition chart_dirs :: "(string \<times> fsnode) list \<Rightarrow> (string \<times> fsnode) list" where
  "chart_dirs es = filter (\<lambda>e. isExistsOnFilesystem (snd e) ChartConfigFilename) es"

text \<open>
  Example trees: the tree of the specification's example; a marker two and three
  levels down; a module inside a module and a module two levels down, for the second
  revision; a root that holds markers itself.
\<close>

definition spec_tree :: fsnode where
  "spec_tree =
     Dir [(''modA'', Dir [(''Chart.yaml'', File),
                          (''charts'', Dir [(''nested'', Dir [(''Chart.yaml'', File)])])])]"


definition deep_tree :: fsnode where
  "deep_tree = Dir [(''group'', Dir [(''modA'', Dir [(''Chart.yaml'', File)])])]"

definition nested_modules :: fsnode where
  "nested_modules =
     Dir [(''modA'', Dir [(''charts'', Dir [(''nested'', Dir [(''module.yaml'', File)])]),
                          (''module.yaml'', File)])]"

definition three_deep :: fsnode where
  "three_deep = Dir [(''a'', Dir [(''b'', Dir [(''c'', Dir [(''Chart.yaml'', File)])])])]"

definition deep_module :: fsnode where
  "deep_module = Dir [(''a'', Dir [(''b'', Dir [(''module.yaml'', File)])])]"

definition root_module :: fsnode where
  "root_module = Dir [(''Chart.yaml'', File), (''hooks'', Dir [])]"

definition stray_marker :: fsnode where
  "stray_marker = Dir [(''Chart.yaml'', File), (''modA'', Dir [(''Chart.yaml'', File)])]"

section \<open>Package manager: \<open>Run\<close>\<close>

text \<open>
  \<open>Run\<close> starts, for each element of its outer loop, one goroutine per element of
  the inner loop in an \<open>errgroup.Group\<close>, and waits for the group before the next
  round. A task is a linter with a module. Its body runs the linter; on an error it
  returns the error to the group, and otherwise, when the finding list converts to an
  error that is not nil, it merges the list into \<open>result\<close> under the mutex. The linter
  is a function of the module, and between lock and unlock the task is alone with
  \<open>result\<close>, so a task acts on \<open>result\<close> in one step, when it finishes.
  The closure reads the loop variables of its own iteration (Go 1.22 and later).
\<close>

type_synonym ('m, 'v) task = "('m, 'v) Linter \<times> 'm"

definition task_body ::
  "'v console \<Rightarrow> ('m, 'v) task \<Rightarrow> 'v LintRuleErrorsList \<Rightarrow> 'v LintRuleErrorsList" where
  "task_body con t result =
     (case Run (fst t) (snd t) of
        Inl err \<Rightarrow> result
      | Inr errs \<Rightarrow> if ConvertToError con errs \<noteq> None then Merge result errs else result)"

text \<open>
  The group. \<open>g.Go\<close> starts the next task once fewer than \<open>limit\<close> tasks are running
  (a negative limit is no limit, and with limit 0 it blocks for ever); any running
  task may finish next; \<open>g.Wait\<close> returns when no task is left. The group is given no
  context, so a task's error stops nothing, and \<open>Run\<close> discards the error that
  \<open>Wait\<close> returns. \<open>errgroup limit con pending running result result'\<close>: from the
  tasks not yet started, the running tasks and \<open>result\<close>, some schedule ends the
  group with \<open>result'\<close>.
\<close>

definition may_start :: "int \<Rightarrow> 'a list \<Rightarrow> bool" where
  "may_start limit running \<longleftrightarrow> limit < 0 \<or> int (length running) < limit"

inductive errgroup ::
  "int \<Rightarrow> 'v console \<Rightarrow> ('m, 'v) task list \<Rightarrow> ('m, 'v) task list \<Rightarrow>
   'v LintRuleErrorsList \<Rightarrow> 'v LintRuleErrorsList \<Rightarrow> bool"
  for limit :: int and con :: "'v console"
where
  Wait: "errgroup limit con [] [] result result"
| Go: "may_start limit running \<Longrightarrow>
       errgroup limit con pending (running @ [t]) result result' \<Longrightarrow>
       errgroup limit con (t # pending) running result result'"
| Done: "i < length running \<Longrightarrow>
       errgroup limit con pending (take i running @ drop (Suc i) running)
         (task_body con (running ! i) result) result' \<Longrightarrow>
       errgroup limit con pending running result result'"

text \<open>The outer loop: one group after the other.\<close>

inductive run_groups ::
  "int \<Rightarrow> 'v console \<Rightarrow> ('m, 'v) task list list \<Rightarrow>
   'v LintRuleErrorsList \<Rightarrow> 'v LintRuleErrorsList \<Rightarrow> bool"
  for limit :: int and con :: "'v console"
where
  Return: "run_groups limit con [] result result"
| Next: "errgroup limit con tasks [] result result1 \<Longrightarrow>
       run_groups limit con rest result1 result' \<Longrightarrow>
       run_groups limit con (tasks # rest) result result'"

text \<open>
  \<open>Run\<close> of \<open>pkg/manager/manager.go\<close>: the linters in the outer loop, the modules in
  the inner one, at most \<open>modulesLimit\<close> tasks at a time. The results of \<open>Run\<close> are
  the lists some schedule ends with.
\<close>

definition modulesLimit :: int where
  "modulesLimit = 10"

definition Manager_Run ::
  "'v console \<Rightarrow> ('m, 'v) Linter list \<Rightarrow> 'm list \<Rightarrow> 'v LintRuleErrorsList \<Rightarrow> bool" where
  "Manager_Run con Linters Modules result \<longleftrightarrow>
     run_groups modulesLimit con (map (\<lambda>linter. map (\<lambda>module. (linter, module)) Modules) Linters)
       empty_list result"

text \<open>
  \<open>Run\<close> of the second revision: the modules in the outer loop, the linters in the
  inner one; the limit is \<open>flags.LintersLimit\<close>, declared elsewhere.
\<close>

definition Manager_Run_v2 ::
  "int \<Rightarrow> 'v console \<Rightarrow> ('m, 'v) Linter list \<Rightarrow> 'm list \<Rightarrow> 'v LintRuleErrorsList \<Rightarrow> bool" where
  "Manager_Run_v2 LintersLimit con Linters Modules result \<longleftrightarrow>
     run_groups LintersLimit con (map (\<lambda>module. map (\<lambda>linter. (linter, module)) Linters) Modules)
       empty_list result"

text \<open>
  What a task contributes, and the result of the schedule that runs the tasks one at a
  time in the order of the loops.
\<close>

definition findings_of :: "('m, 'v) task \<Rightarrow> 'v LintRuleError list" where
  "findings_of t = (case Run (fst t) (snd t) of Inl err \<Rightarrow> [] | Inr errs \<Rightarrow> data errs)"

definition in_turn ::
  "'v console \<Rightarrow> ('m, 'v) task list list \<Rightarrow> 'v LintRuleErrorsList \<Rightarrow> 'v LintRuleErrorsList" where
  "in_turn con gs result = fold (\<lambda>tasks r. fold (task_body con) tasks r) gs result"

text \<open>Two linters, one of which fails on the module \<open>mod-a\<close>.\<close>

definition finding_for :: "string \<Rightarrow> string \<Rightarrow> string LintRuleError" where
  "finding_for rule module = \<lparr>Text = ''violation'', ID = rule, ObjectID = module, Value = None\<rparr>"

definition flaky :: "(string, string) Linter" where
  "flaky =
     \<lparr>Name = ''flaky'', Desc = [],
      Run = (\<lambda>module. if module = ''mod-a'' then Inl ''cannot render''
                      else Inr \<lparr>data = [finding_for ''flaky'' module]\<rparr>)\<rparr>"

definition steady :: "(string, string) Linter" where
  "steady =
     \<lparr>Name = ''steady'', Desc = [],
      Run = (\<lambda>module. Inr \<lparr>data = [finding_for ''steady'' module]\<rparr>)\<rparr>"

section \<open>Package probes: \<open>RunRender\<close> and the cache of rendered templates\<close>

text \<open>
  \<open>SplitAt\<close> is the split function of the scanner that cuts a rendered file into
  documents. \<open>strings.Index\<close> gives the position of the first occurrence. (The
  source's parameter \<open>data\<close> is \<open>dat\<close> here.)
\<close>

primrec Index :: "string \<Rightarrow> string \<Rightarrow> nat option" where
  "Index [] substring = (if substring = [] then Some 0 else None)"
| "Index (c # cs) substring =
     (if prefix substring (c # cs) then Some 0 else map_option Suc (Index cs substring))"

definition SplitAt :: "string \<Rightarrow> string \<Rightarrow> bool \<Rightarrow> nat \<times> string option" where
  "SplitAt substring dat atEOF =
     (if atEOF \<and> length dat = 0 then (0, None)
      else (case Index dat substring of
              Some i \<Rightarrow> (i + length substring, Some (take i dat))
            | None \<Rightarrow> if atEOF then (length dat, Some dat) else (0, None)))"

text \<open>
  The tokens \<open>scanner.Scan\<close> yields for a file that the scanner's buffer holds whole
  (the scanner gives up on a token beyond 64 KiB, which is not modelled): the split
  function is asked again after each token, on the text that follows it, until it
  returns no token. A token moves the scanner forward, so the loop ends.
\<close>

lemma SplitAt_advances:
  "SplitAt substring dat True = (advance, Some token) \<Longrightarrow> substring \<noteq> [] \<Longrightarrow>
   0 < advance \<and> dat \<noteq> []"
  by (auto simp: SplitAt_def split: if_splits option.splits)

function scan_tokens :: "string \<Rightarrow> string \<Rightarrow> string list" where
  "scan_tokens substring dat =
     (if substring = [] then []
      else (case SplitAt substring dat True of
              (advance, None) \<Rightarrow> []
            | (advance, Some token) \<Rightarrow> token # scan_tokens substring (drop advance dat)))"
  by pat_completeness auto
termination
proof (relation "measure (\<lambda>(substring, dat). length dat)")
  fix substring dat :: string and x advance token y
  assume "substring \<noteq> []" "(advance, y) = SplitAt substring dat True" "y = Some token"
  then have "0 < advance \<and> dat \<noteq> []"
    using SplitAt_advances [of substring dat advance token] by simp
  then show "((substring, drop advance dat), (substring, dat))
      \<in> measure (\<lambda>(substring, dat). length dat)"
    by simp
qed simp

declare scan_tokens.simps [simp del]

text \<open>
  \<open>numerateManifestLines\<close> puts the line number and a tab before every line;
  \<open>itoa\<close> is what \<open>%d\<close> prints for a number that is not negative, and \<open>Split\<close> is
  \<open>strings.Split\<close> at a one-byte separator.
\<close>

definition digit_char :: "nat \<Rightarrow> char" where
  "digit_char d = char_of (48 + d)"

function itoa :: "nat \<Rightarrow> string" where
  "itoa n = (if n < 10 then [digit_char n] else itoa (n div 10) @ [digit_char (n mod 10)])"
  by pat_completeness auto
termination
  by (relation "measure (\<lambda>n. n)") auto

declare itoa.simps [simp del]

primrec Split :: "string \<Rightarrow> char \<Rightarrow> string list" where
  "Split [] sep = [[]]"
| "Split (c # cs) sep =
     (if c = sep then [] # Split cs sep
      else (case Split cs sep of [] \<Rightarrow> [[c]] | line # lines \<Rightarrow> (c # line) # lines))"

definition numerateManifestLines :: "string \<Rightarrow> string" where
  "numerateManifestLines manifest =
     concat (map (\<lambda>(index, line). itoa (index + 1) @ tab @ line @ nl)
       (enumerate 0 (Split manifest (CHR 0x0A))))"

text \<open>
  What \<open>RunRender\<close> calls from other packages: the helm renderer (with the module's
  name, namespace and chart), \<open>hashstructure.Hash\<close> of the rendered files,
  \<open>yaml.Unmarshal\<close> into a map and its \<open>len\<close>, and \<open>objectStore.Put\<close>. The rendered
  files are a Go map; the list gives them in the order in which the loop ranges over
  it. An error is its message.
\<close>

record ('mod, 'vals, 'node, 'store) collaborators =
  RenderChartFromRawValues :: "'mod \<Rightarrow> 'vals \<Rightarrow> string + (string \<times> string) list"
  Hash :: "(string \<times> string) list \<Rightarrow> string + 64 word"
  Unmarshal :: "string \<Rightarrow> string + 'node"
  node_len :: "'node \<Rightarrow> nat"
  Put :: "'store \<Rightarrow> string \<Rightarrow> 'node \<Rightarrow> string \<Rightarrow> string option \<times> 'store"

text \<open>
  \<open>renderedTemplatesHash\<close> is a \<open>sync.Map\<close> with empty values: the set of its keys.
\<close>

definition Load :: "64 word set \<Rightarrow> 64 word \<Rightarrow> bool" where
  "Load renderedTemplatesHash hash \<longleftrightarrow> hash \<in> renderedTemplatesHash"

definition Store :: "64 word set \<Rightarrow> 64 word \<Rightarrow> 64 word set" where
  "Store renderedTemplatesHash hash = insert hash renderedTemplatesHash"

text \<open>The error messages.\<close>

definition manifestErrorMessage :: "string \<Rightarrow> string \<Rightarrow> string" where
  "manifestErrorMessage err manifest =
     ''manifest unmarshal: '' @ err @ nl @ nl @ ''--- Manifest:'' @ nl @ manifest @ nl"

definition objectExistsMessage :: "string \<Rightarrow> string" where
  "objectExistsMessage err = ''helm chart object already exists: '' @ err"

definition renderErrorMessage :: "string \<Rightarrow> string" where
  "renderErrorMessage err = ''helm chart render: '' @ err"

definition separator :: string where
  "separator = ''---''"

text \<open>
  The two loops of \<open>RunRender\<close>, over the documents of a file and over the files. A
  document that does not parse and a \<open>Put\<close> that fails end both loops with the
  error; a document with an empty map is passed over.
\<close>

fun scan_docs ::
  "('mod, 'vals, 'node, 'store) collaborators \<Rightarrow> string \<Rightarrow> string list \<Rightarrow> 'store \<Rightarrow>
   string option \<times> 'store" where
  "scan_docs env path [] objectStore = (None, objectStore)"
| "scan_docs env path (docBytes # docs) objectStore =
     (case Unmarshal env docBytes of
        Inl err \<Rightarrow>
          (Some (manifestErrorMessage err (numerateManifestLines docBytes)), objectStore)
      | Inr node \<Rightarrow>
          if node_len env node = 0 then scan_docs env path docs objectStore
          else (case Put env objectStore path node docBytes of
                  (Some err, objectStore') \<Rightarrow>
                    (Some (objectExistsMessage err), objectStore')
                | (None, objectStore') \<Rightarrow> scan_docs env path docs objectStore'))"

fun scan_files ::
  "('mod, 'vals, 'node, 'store) collaborators \<Rightarrow> (string \<times> string) list \<Rightarrow> 'store \<Rightarrow>
   string option \<times> 'store" where
  "scan_files env [] objectStore = (None, objectStore)"
| "scan_files env ((path, bigFile) # files) objectStore =
     (case scan_docs env path (scan_tokens separator bigFile) objectStore of
        (Some lintError, objectStore') \<Rightarrow> (Some lintError, objectStore')
      | (None, objectStore') \<Rightarrow> scan_files env files objectStore')"

text \<open>
  \<open>RunRender\<close> returns the error, the object store and the map of hashes as the call
  leaves them. The \<open>Store\<close> is deferred right after the \<open>Load\<close> that missed, so it
  runs on every return that follows, with an error or without.
\<close>

definition RunRender ::
  "('mod, 'vals, 'node, 'store) collaborators \<Rightarrow> 'mod \<Rightarrow> 'vals \<Rightarrow> 'store \<Rightarrow> 64 word set \<Rightarrow>
   string option \<times> 'store \<times> 64 word set" where
  "RunRender env m values objectStore renderedTemplatesHash =
     (case RenderChartFromRawValues env m values of
        Inl err \<Rightarrow> (Some (renderErrorMessage err), objectStore, renderedTemplatesHash)
      | Inr files \<Rightarrow>
          (case Hash env files of
             Inl err \<Rightarrow>
               (Some (renderErrorMessage err), objectStore, renderedTemplatesHash)
           | Inr hash \<Rightarrow>
               if Load renderedTemplatesHash hash then (None, objectStore, renderedTemplatesHash)
               else (case scan_files env files objectStore of
                       (lintError, objectStore') \<Rightarrow>
                         (lintError, objectStore', Store renderedTemplatesHash hash))))"

text \<open>
  Calls one after the other, each with an object store of its own; what they share is
  the map of hashes.
\<close>

fun RunRenders ::
  "('mod, 'vals, 'node, 'store) collaborators \<Rightarrow> ('mod \<times> 'vals \<times> 'store) list \<Rightarrow>
   64 word set \<Rightarrow> 64 word set" where
  "RunRenders env [] renderedTemplatesHash = renderedTemplatesHash"
| "RunRenders env ((m, values, objectStore) # calls) renderedTemplatesHash =
     RunRenders env calls (snd (snd (RunRender env m values objectStore renderedTemplatesHash)))"

definition hashes_after ::
  "('mod, 'vals, 'node, 'store) collaborators \<Rightarrow> 'mod \<Rightarrow> 'vals \<Rightarrow> 'store \<Rightarrow> 64 word set \<Rightarrow>
   64 word set" where
  "hashes_after env m values objectStore renderedTemplatesHash =
     snd (snd (RunRender env m values objectStore renderedTemplatesHash))"

text \<open>
  Two callers of \<open>RunRender\<close> whose rendered output has the same hash. With respect
  to the shared map a caller takes two steps: the \<open>Load\<close>, after which it either
  returns (\<open>Skipped\<close>) or goes on to validate, and the deferred \<open>Store\<close> on its return
  (\<open>Marked\<close>). Each operation of a \<open>sync.Map\<close> is atomic, so a run of two callers is
  an interleaving of their steps; the schedule names the caller who moves next
  (\<open>False\<close> the first, \<open>True\<close> the second).
\<close>

datatype caller = Ready | Validating | Skipped | Marked

fun step :: "64 word \<Rightarrow> caller \<Rightarrow> 64 word set \<Rightarrow> caller \<times> 64 word set" where
  "step hash Ready renderedTemplatesHash =
     (if Load renderedTemplatesHash hash then Skipped else Validating, renderedTemplatesHash)"
| "step hash Validating renderedTemplatesHash = (Marked, Store renderedTemplatesHash hash)"
| "step hash c renderedTemplatesHash = (c, renderedTemplatesHash)"

fun interleave ::
  "64 word \<Rightarrow> bool list \<Rightarrow> caller \<times> caller \<times> 64 word set \<Rightarrow> caller \<times> caller \<times> 64 word set"
where
  "interleave hash [] st = st"
| "interleave hash (second # schedule) (a, b, renderedTemplatesHash) =
     (if second
      then (case step hash b renderedTemplatesHash of
              (b', hashes') \<Rightarrow> interleave hash schedule (a, b', hashes'))
      else (case step hash a renderedTemplatesHash of
              (a', hashes') \<Rightarrow> interleave hash schedule (a', b, hashes')))"

definition returned :: "caller \<Rightarrow> bool" where
  "returned c \<longleftrightarrow> c = Skipped \<or> c = Marked"

text \<open>
  What every state of two callers satisfies when they start with a hash the map does
  not hold: the hash is in the map exactly when a caller has marked it, and a caller
  has skipped only when the hash is in the map.
\<close>

definition settled :: "64 word \<Rightarrow> caller \<times> caller \<times> 64 word set \<Rightarrow> bool" where
  "settled hash st =
     (case st of (a, b, hashes) \<Rightarrow>
        (hash \<in> hashes \<longleftrightarrow> a = Marked \<or> b = Marked) \<and>
        (a = Skipped \<or> b = Skipped \<longrightarrow> hash \<in> hashes))"

text \<open>
  Collaborators for an example: the module is its one template, the hash is the size
  of the output, the document \<open>bad\<close> does not parse, and the store refuses a
  document it holds.
\<close>

definition toy_env :: "(string, unit, string, (string \<times> string) list) collaborators" where
  "toy_env =
     \<lparr>RenderChartFromRawValues = (\<lambda>m v. Inr [(''templates/a.yaml'', m)]),
      Hash = (\<lambda>files. Inr (of_nat (length (concat (map snd files))))),
      Unmarshal = (\<lambda>doc. if doc = ''bad'' then Inl ''yaml: did not find expected key''
                          else Inr doc),
      node_len = length,
      Put = (\<lambda>objectStore path node raw.
               if (path, raw) \<in> set objectStore then (Some ''duplicate object'', objectStore)
               else (None, objectStore @ [(path, raw)]))\<rparr>"

section \<open>Properties of the finding list\<close>

lemma EqualsTo_refl: "EqualsTo e e"
  by (simp add: EqualsTo_def)

lemma IsEmpty_cong: "EqualsTo a b \<Longrightarrow> IsEmpty a \<longleftrightarrow> IsEmpty b"
  unfolding EqualsTo_def IsEmpty_def by simp

lemma contains_cong:
  "EqualsTo a b \<Longrightarrow> list_ex (EqualsTo a) xs \<longleftrightarrow> list_ex (EqualsTo b) xs"
  unfolding EqualsTo_def list_ex_iff by simp

lemma Add_twice:
  assumes "EqualsTo a b"
  shows "Add (Add s a) b = Add s a"
proof (cases "IsEmpty a \<or> list_ex (EqualsTo a) (data s)")
  case True
  then have "Add s a = s"
    by (auto simp: Add_def)
  moreover from True have "IsEmpty b \<or> list_ex (EqualsTo b) (data s)"
    using IsEmpty_cong [OF assms] contains_cong [OF assms] by simp
  then have "Add s b = s"
    by (auto simp: Add_def)
  ultimately show ?thesis by simp
next
  case False
  then have stored: "data (Add s a) = data s @ [a]"
    by (simp add: Add_def)
  from assms have "EqualsTo b a"
    unfolding EqualsTo_def by simp
  then have "list_ex (EqualsTo b) (data (Add s a))"
    by (simp add: stored)
  then show ?thesis
    by (simp add: Add_def [of "Add s a" b])
qed

text \<open>
  Claim C3, as the code has it. \<open>Add s f\<close> is \<open>s\<close> when \<open>f\<close> is empty and when \<open>s\<close>
  holds a finding equal to \<open>f\<close> on (ID, Text, ObjectID); the payload plays no part.
  Adding a finding \<open>b\<close> right after an equal finding \<open>a\<close> never changes the list, and
  when \<open>a\<close> is not empty, adding both to the empty list stores \<open>a\<close> alone.
\<close>

theorem Add_dedups:
  "(IsEmpty f \<longrightarrow> Add s f = s) \<and>
   (list_ex (EqualsTo f) (data s) \<longrightarrow> Add s f = s) \<and>
   (EqualsTo a b \<longrightarrow> Add (Add s a) b = Add s a) \<and>
   (EqualsTo a b \<and> \<not> IsEmpty a \<longrightarrow> data (Add (Add empty_list a) b) = [a])"
proof (intro conjI impI)
  show "Add s f = s" if "IsEmpty f"
    using that by (simp add: Add_def)
  show "Add s f = s" if "list_ex (EqualsTo f) (data s)"
    using that by (simp add: Add_def)
  show "Add (Add s a) b = Add s a" if "EqualsTo a b"
    using that by (rule Add_twice)
  show "data (Add (Add empty_list a) b) = [a]" if "EqualsTo a b \<and> \<not> IsEmpty a"
  proof -
    from that have "Add (Add empty_list a) b = Add empty_list a"
      by (simp add: Add_twice)
    with that show ?thesis
      by (simp add: Add_def empty_list_def)
  qed
qed

theorem Add_dedups_witness:
  "IsEmpty blank_one \<and> Add \<lparr>data = [probe_one]\<rparr> blank_one = \<lparr>data = [probe_one]\<rparr> \<and>
   list_ex (EqualsTo probe_two) (data \<lparr>data = [probe_one]\<rparr>) \<and>
   Add \<lparr>data = [probe_one]\<rparr> probe_two = \<lparr>data = [probe_one]\<rparr> \<and>
   EqualsTo probe_one probe_two \<and> \<not> IsEmpty probe_one \<and>
   Add (Add \<lparr>data = [probe_one]\<rparr> probe_one) probe_two = Add \<lparr>data = [probe_one]\<rparr> probe_one \<and>
   data (Add (Add empty_list probe_one) probe_two) = [probe_one]"
  using Add_dedups [of blank_one "\<lparr>data = [probe_one]\<rparr>" probe_one probe_two]
    Add_dedups [of probe_two "\<lparr>data = [probe_one]\<rparr>" probe_one probe_two]
  by (simp add: IsEmpty_def EqualsTo_def blank_one_def probe_one_def probe_two_def)

text \<open>
  Claim C3 as the specification words it fails for findings whose key fields are all
  empty: two of them that differ in the payload only leave the empty list empty.
\<close>

theorem Add_blank_pair_counterexample:
  "EqualsTo blank_one blank_two \<and> Value blank_one \<noteq> Value blank_two \<and>
   data (Add (Add empty_list blank_one) blank_two) = []"
  by (simp add: EqualsTo_def IsEmpty_def Add_def empty_list_def blank_one_def blank_two_def)

text \<open>
  Claim C4. \<open>Merge\<close> appends the argument's entries as they are, with no look at the
  receiver's entries; merging \<open>A\<close>, \<open>B\<close>, \<open>C\<close> in turn into the empty list gives
  \<open>A @ B @ C\<close>.
\<close>

theorem Merge_concat:
  "data (Merge l e) = data l @ data e \<and>
   data (Merge (Merge (Merge empty_list A) B) C) = data A @ data B @ data C"
  by (simp add: Merge_def empty_list_def)

section \<open>Properties of the report\<close>

lemma doPrintf_plain: "CHR ''%'' \<notin> set s \<Longrightarrow> doPrintf s = s"
  by (induction s) auto

lemma sublist_concat_map:
  "x \<in> set xs \<Longrightarrow> sublist (f x) (concat (map f xs))"
proof -
  assume "x \<in> set xs"
  then obtain ys zs where "xs = ys @ x # zs"
    by (auto dest: split_list)
  then have "concat (map f xs) = concat (map f ys) @ f x @ concat (map f zs)"
    by simp
  then show ?thesis
    unfolding sublist_def by blast
qed

lemma sublist_wrap: "sublist s (wrap con a s)"
  unfolding wrap_def sublist_def by (cases "no_color con") (auto intro: exI [of _ "[]"])

lemma sublist_mid: "sublist s t \<Longrightarrow> sublist s (p @ t @ q)"
  unfolding sublist_def by (metis append.assoc)

lemma entry_has_ID: "sublist (ID e) (entry_text con e)"
proof -
  have "sublist (ID e) (wrap con FgHiBlue (''[#'' @ ID e @ '']''))"
    by (rule sublist_order.order.trans [OF _ sublist_wrap]) (rule sublist_mid, simp)
  then show ?thesis
    unfolding entry_text_def by (rule sublist_mid)
qed

lemma entry_has_ObjectID: "sublist (ObjectID e) (entry_text con e)"
  unfolding entry_text_def sublist_def
  by (metis append.assoc)

lemma entry_has_Text:
  assumes "CHR ''%'' \<notin> set (Text e)"
  shows "sublist (Text e) (entry_text con e)"
proof -
  have "Sprintf0 (Text e) = Text e"
    using assms by (simp add: Sprintf0_def doPrintf_plain)
  then have "sublist (Text e) (wrap con FgRed (Sprintf0 (Text e)))"
    by (simp add: sublist_wrap)
  then have "sublist (Text e)
     ((monkey con @ wrap con FgHiBlue (''[#'' @ ID e @ '']'') @
       nl @ tab @ ''Message'' @ tab @ ''- '') @ wrap con FgRed (Sprintf0 (Text e)) @
     (nl @ tab @ ''Object'' @ tab @ ''- '' @ ObjectID e @ nl @
     (case Value e of
        None \<Rightarrow> []
      | Some v \<Rightarrow> tab @ ''Value'' @ tab @ ''- '' @ value_s con v @ nl) @
     nl))"
    by (rule sublist_mid)
  then show ?thesis
    unfolding entry_text_def by simp
qed

lemma ConvertToError_contains:
  assumes "ConvertToError con l = Some r" and "e \<in> set (data l)"
  shows "sublist (ID e) r" and "sublist (ObjectID e) r"
    and "CHR ''%'' \<notin> set (Text e) \<Longrightarrow> sublist (Text e) r"
proof -
  from assms have r: "sublist (entry_text con e) r"
    by (auto simp: ConvertToError_def sublist_concat_map split: if_splits)
  show "sublist (ID e) r"
    by (rule sublist_order.order.trans [OF entry_has_ID r])
  show "sublist (ObjectID e) r"
    by (rule sublist_order.order.trans [OF entry_has_ObjectID r])
  show "sublist (Text e) r" if "CHR ''%'' \<notin> set (Text e)"
    by (rule sublist_order.order.trans [OF entry_has_Text [OF that] r])
qed

lemma ConvertToError_nil: "ConvertToError con l = None \<longleftrightarrow> data l = []"
  by (simp add: ConvertToError_def)

lemma limit_message: "Sprintf0 ''limit 80% exceeded'' = ''limit 80%!e(MISSING)xceeded''"
  unfolding Sprintf0_def by code_simp

text \<open>
  Claim C9 at a finding whose message is \<open>limit 80% exceeded\<close>. The message is used
  as a format string: the percent sign, the space after it (a flag) and the letter
  \<open>e\<close> (the verb) are read as a directive with no operand, and the report prints
  \<open>limit 80%!e(MISSING)xceeded\<close>. The report of this one finding does not contain
  its message.
\<close>

theorem ConvertToError_mangles_percent:
  "ConvertToError plain_console \<lparr>data = [limit_finding]\<rparr> = Some limit_report \<and>
   \<not> sublist (Text limit_finding) limit_report"
proof
  show "ConvertToError plain_console \<lparr>data = [limit_finding]\<rparr> = Some limit_report"
    by (simp add: ConvertToError_def entry_text_def wrap_def limit_finding_def limit_message
        limit_report_def plain_console_def)
  show "\<not> sublist (Text limit_finding) limit_report"
    unfolding limit_finding_def limit_report_def plain_console_def nl_def tab_def
    by (simp add: sublist_Cons_right prefix_Cons)
qed

section \<open>Properties of the linter resolution\<close>

lemma enable_step_fresh:
  "lintersMap (enable_step FreshMap n h) = lintersMap h"
  "fresh_map (enable_step FreshMap n h) k =
     (if k = ToLower n \<and> lintersMap h k \<noteq> None then lintersMap h k else fresh_map h k)"
  by (auto simp: enable_step_def assign_def Let_def split: option.splits)

lemma enable_fresh:
  "lintersMap (fold (enable_step FreshMap) names h) = lintersMap h"
  "fresh_map (fold (enable_step FreshMap) names h) k =
     (if k \<in> ToLower ` set names \<and> lintersMap h k \<noteq> None then lintersMap h k
      else fresh_map h k)"
  by (induction names arbitrary: h) (auto simp: enable_step_fresh)

lemma disable_step_fresh:
  "lintersMap (disable_step FreshMap n h) = lintersMap h"
  "fresh_map (disable_step FreshMap n h) k =
     (if k = n \<and> lintersMap h k \<noteq> None then None else fresh_map h k)"
  by (auto simp: disable_step_def delete_def split: option.splits)

lemma disable_fresh:
  "lintersMap (fold (disable_step FreshMap) names h) = lintersMap h"
  "fresh_map (fold (disable_step FreshMap) names h) k =
     (if k \<in> set names \<and> lintersMap h k \<noteq> None then None else fresh_map h k)"
  by (induction names arbitrary: h) (auto simp: disable_step_fresh)

lemma getEnabledLinters_DisableAll:
  assumes "DisableAll cfg"
  shows "getEnabledLinters cfg lm =
     (\<lambda>k. if k \<in> ToLower ` set (Enable cfg) \<and> k \<notin> set (Disable cfg) then lm k else None, lm)"
  using assms
  by (auto simp: getEnabledLinters_def Let_def deref_def disable_fresh enable_fresh fun_eq_iff)

lemma enable_shared: "fold (enable_step LintersMap) names h = h"
  by (induction names arbitrary: h)
     (auto simp: enable_step_def assign_def Let_def map_upd_triv split: option.splits)

lemma disable_step_shared:
  "lintersMap (disable_step LintersMap n h) k = (if k = n then None else lintersMap h k)"
  by (auto simp: disable_step_def delete_def split: option.splits)

lemma disable_shared:
  "lintersMap (fold (disable_step LintersMap) names h) k =
     (if k \<in> set names then None else lintersMap h k)"
  by (induction names arbitrary: h) (auto simp: disable_step_shared)

lemma getEnabledLinters_default:
  assumes "\<not> DisableAll cfg"
  shows "getEnabledLinters cfg lm =
     (\<lambda>k. if k \<in> set (Disable cfg) then None else lm k,
      \<lambda>k. if k \<in> set (Disable cfg) then None else lm k)"
  using assms
  by (auto simp: getEnabledLinters_def Let_def deref_def enable_shared disable_shared fun_eq_iff)


lemma ToLower_copyright: "ToLower ''copyright'' = ''copyright''"
  by (simp add: ToLower_def lower_byte_def byte_def)

lemma stock_map:
  "build_lintersMap stock_linters =
     [''openapi'' \<mapsto> stub_linter ''openapi'', ''no-cyrillic'' \<mapsto> stub_linter ''no-cyrillic'',
      ''copyright'' \<mapsto> stub_linter ''copyright'', ''probes'' \<mapsto> stub_linter ''probes'']"
  by (simp add: build_lintersMap_def stock_linters_def stub_linter_def ToLower_def
      lower_byte_def byte_def)

text \<open>
  Claim C8. With \<open>DisableAll\<close> set, the resulting set holds, under key \<open>k\<close>, the
  catalog's linter for \<open>k\<close> exactly when \<open>k\<close> is the lower-cased form of a name in
  the enable list and is not written in the disable list; a name the catalog does not
  hold adds and removes nothing. With the enable list \<open>["copyright"]\<close>, the disable
  list empty and a catalog that holds \<open>copyright\<close>, the set is that one linter.
\<close>

theorem getEnabledLinters_disableAll:
  assumes "DisableAll cfg"
  shows "(\<forall>k. fst (getEnabledLinters cfg lm) k =
            (if k \<in> ToLower ` set (Enable cfg) \<and> k \<notin> set (Disable cfg) then lm k else None)) \<and>
         (Enable cfg = [''copyright''] \<and> Disable cfg = [] \<and> lm ''copyright'' = Some c \<longrightarrow>
            fst (getEnabledLinters cfg lm) = [''copyright'' \<mapsto> c])"
proof (intro conjI allI impI)
  fix k
  show "fst (getEnabledLinters cfg lm) k =
      (if k \<in> ToLower ` set (Enable cfg) \<and> k \<notin> set (Disable cfg) then lm k else None)"
    using assms by (simp add: getEnabledLinters_DisableAll)
next
  assume ex: "Enable cfg = [''copyright''] \<and> Disable cfg = [] \<and> lm ''copyright'' = Some c"
  then have "ToLower ` set (Enable cfg) = {''copyright''}"
    by (simp add: ToLower_copyright)
  with ex show "fst (getEnabledLinters cfg lm) = [''copyright'' \<mapsto> c]"
    using assms by (auto simp: getEnabledLinters_DisableAll fun_eq_iff)
qed

theorem getEnabledLinters_disableAll_witness:
  "DisableAll only_copyright \<and>
   fst (getEnabledLinters only_copyright (build_lintersMap stock_linters)) =
     [''copyright'' \<mapsto> stub_linter ''copyright'']"
proof -
  have d: "DisableAll only_copyright"
    by (simp add: only_copyright_def)
  have "Enable only_copyright = [''copyright''] \<and> Disable only_copyright = [] \<and>
      build_lintersMap stock_linters ''copyright'' = Some (stub_linter ''copyright'')"
    by (simp add: only_copyright_def stock_map)
  with getEnabledLinters_disableAll [OF d, of "build_lintersMap stock_linters" "stub_linter ''copyright''"]
  show ?thesis
    using d by blast
qed

text \<open>
  The disable list is matched against the keys as written: a name in another case than
  its key is no key of the catalog and removes nothing.
\<close>

lemma disable_needs_exact_key:
  "fst (getEnabledLinters
      \<lparr>DisableAll = True, EnableAll = False, Enable = [''Copyright''], Disable = [''Copyright'']\<rparr>
      (build_lintersMap stock_linters)) =
   [''copyright'' \<mapsto> stub_linter ''copyright'']"
proof -
  have low: "ToLower ''Copyright'' = ''copyright''"
    by code_simp
  show ?thesis
    by (auto simp: getEnabledLinters_DisableAll low stock_map fun_eq_iff)
qed

section \<open>Properties of module discovery\<close>

lemma Join_neq: "Join root name \<noteq> root"
  by (simp add: Join_def)

lemma visit_Dir:
  "path \<noteq> modulesDir \<Longrightarrow>
   visit modulesDir path (Dir sub) None acc =
     (Some SkipDir,
      if isExistsOnFilesystem (Dir sub) ChartConfigFilename then acc @ [path] else acc)"
  by (simp add: visit_def IsDir_def)

lemma visit_File: "visit modulesDir path File None acc = (None, acc)"
  by (simp add: visit_def IsDir_def)

lemma no_chart_in_File: "\<not> isExistsOnFilesystem File name"
  by (simp add: isExistsOnFilesystem_def)

lemma walk_names_visit_flat:
  "flat es \<Longrightarrow>
   walk_names (visit root) root es acc =
     (None, acc @ map (\<lambda>e. Join root (fst e)) (chart_dirs es))"
proof (induction es arbitrary: acc)
  case Nil
  then show ?case by (simp add: chart_dirs_def)
next
  case (Cons e es)
  obtain name info where e: "e = (name, info)"
    by (cases e)
  from Cons.prems have rest: "flat es" and here: "info = File \<or> (\<exists>sub. info = Dir sub)"
    by (auto simp: flat_def e)
  from here show ?case
  proof
    assume "info = File"
    then show ?thesis
      by (simp add: e Cons.IH [OF rest] visit_File no_chart_in_File chart_dirs_def)
  next
    assume "\<exists>sub. info = Dir sub"
    then obtain sub where "info = Dir sub" ..
    then show ?thesis
      by (simp add: e Cons.IH [OF rest] visit_Dir [OF Join_neq] IsDir_def chart_dirs_def)
  qed
qed

lemma getModulePaths_first_level:
  "flat es \<Longrightarrow>
   getModulePaths root (Dir es) = Inr (map (\<lambda>e. Join root (fst e)) (chart_dirs es))"
  by (simp add: getModulePaths_def Walk_def visit_def [of root root] IsDir_def
      walk_names_visit_flat)


lemma walk_names_visit_paths:
  "walk_names (visit root) root es acc = (r, acc') \<Longrightarrow>
   \<exists>ps. acc' = acc @ ps \<and> set ps \<subseteq> Join root ` fst ` set es"
proof (induction es arbitrary: acc)
  case Nil
  then show ?case by simp
next
  case (Cons e es)
  obtain name info where e: "e = (name, info)"
    by (cases e)
  show ?case
  proof (cases info)
    case File
    with Cons.prems have "walk_names (visit root) root es acc = (r, acc')"
      by (simp add: e visit_File)
    from Cons.IH [OF this] show ?thesis
      by auto
  next
    case NoStat
    with Cons.prems have "acc' = acc"
      by (simp add: e visit_def)
    then show ?thesis by simp
  next
    case NoRead
    with Cons.prems have "acc' = acc"
      by (simp add: e visit_def IsDir_def)
    then show ?thesis by simp
  next
    case (Dir sub)
    let ?acc = "if isExistsOnFilesystem (Dir sub) ChartConfigFilename
      then acc @ [Join root name] else acc"
    from Dir Cons.prems have "walk_names (visit root) root es ?acc = (r, acc')"
      by (simp add: e visit_Dir [OF Join_neq] IsDir_def split: if_splits)
    from Cons.IH [OF this] obtain ps where "acc' = ?acc @ ps"
      and "set ps \<subseteq> Join root ` fst ` set es"
      by auto
    then show ?thesis
      by (cases "isExistsOnFilesystem (Dir sub) ChartConfigFilename") (auto simp: e)
  qed
qed

lemma getModulePaths_below_root:
  assumes "getModulePaths root info = Inr ps"
  shows "set ps \<subseteq> Join root ` UNIV"
proof (cases info)
  case (Dir es)
  obtain r acc' where w: "walk_names (visit root) root es [] = (r, acc')"
    by (cases "walk_names (visit root) root es []")
  with assms Dir have "ps = acc'"
    by (auto simp: getModulePaths_def Walk_def visit_def [of root root] IsDir_def
        split: option.splits if_splits)
  with walk_names_visit_paths [OF w] show ?thesis
    by auto
qed (use assms in \<open>auto simp: getModulePaths_def Walk_def visit_def IsDir_def split: if_splits\<close>)

lemma walk_visit_v2:
  "readable info \<Longrightarrow> walk visit_v2 path info acc = (None, acc @ module_dirs path info)"
  "readable_in es \<Longrightarrow> walk_names visit_v2 path es acc = (None, acc @ module_dirs_in path es)"
  by (induction path info and path es arbitrary: acc and acc
      rule: module_dirs_module_dirs_in.induct)
     (auto simp: visit_v2_def IsDir_def Let_def)

lemma getModulePaths_v2_readable:
  "readable info \<Longrightarrow> getModulePaths_v2 root info = Inr (module_dirs root info)"
  by (cases "info = NoStat") (simp_all add: getModulePaths_v2_def Walk_def walk_visit_v2)

lemma module_dirs_in_member:
  "(name, info) \<in> set es \<Longrightarrow>
   set (module_dirs (Join path name) info) \<subseteq> set (module_dirs_in path es)"
  by (induction es) auto

lemma module_dirs_found:
  "descend info names = Some sub \<Longrightarrow> is_module_v2 sub \<Longrightarrow>
   foldl Join path names \<in> set (module_dirs path info)"
proof (induction names arbitrary: info path)
  case Nil
  then have "\<exists>es. info = Dir es"
    by (cases info) (auto simp: is_module_v2_def isExistsOnFilesystem_def)
  with Nil show ?case by auto
next
  case (Cons name names)
  from Cons.prems obtain es next_info where "info = Dir es"
    and "map_of es name = Some next_info" and "descend next_info names = Some sub"
    by (auto split: fsnode.splits option.splits)
  from Cons.IH [OF this(3) Cons.prems(2)]
  have "foldl Join (Join path name) names \<in> set (module_dirs (Join path name) next_info)" .
  moreover have "(name, next_info) \<in> set es"
    using \<open>map_of es name = Some next_info\<close> by (rule map_of_SomeD)
  ultimately show ?case
    using module_dirs_in_member [of name next_info es path] \<open>info = Dir es\<close> by auto
qed


lemmas fs_eval =
  getModulePaths_def getModulePaths_v2_def Walk_def visit_def visit_v2_def IsDir_def
  isExistsOnFilesystem_def is_module_v2_def ChartConfigFilename_def ModuleYamlFilename_def
  HooksDir_def ImagesDir_def Join_def Let_def

text \<open>
  Claim C5, as the code has it. In \<open>pkg/manager/manager.go\<close> discovery looks at the
  entries of the search root only: when these are files and readable directories, the
  result is the list of those that hold \<open>Chart.yaml\<close>, in walk order, whatever lies
  below them. For the tree with \<open>modA/Chart.yaml\<close> and
  \<open>modA/charts/nested/Chart.yaml\<close> the result is \<open>modA\<close> alone. The second revision
  returns, for a tree without access errors, every directory that holds its markers,
  at any depth and also inside a recorded module.
\<close>

theorem getModulePaths_first_level_only:
  "(flat es \<longrightarrow>
      getModulePaths root (Dir es) = Inr (map (\<lambda>e. Join root (fst e)) (chart_dirs es))) \<and>
   getModulePaths root spec_tree = Inr [Join root ''modA''] \<and>
   (readable info \<longrightarrow> getModulePaths_v2 root info = Inr (module_dirs root info))"
proof (intro conjI impI)
  show "getModulePaths root (Dir es) = Inr (map (\<lambda>e. Join root (fst e)) (chart_dirs es))"
    if "flat es"
    using that by (rule getModulePaths_first_level)
  show "getModulePaths root spec_tree = Inr [Join root ''modA'']"
    by (simp add: spec_tree_def fs_eval)
  show "getModulePaths_v2 root info = Inr (module_dirs root info)" if "readable info"
    using that by (rule getModulePaths_v2_readable)
qed

theorem getModulePaths_first_level_only_witness:
  "flat [(''modA'', Dir [(''Chart.yaml'', File)]), (''notes'', File)] \<and>
   getModulePaths ''root'' (Dir [(''modA'', Dir [(''Chart.yaml'', File)]), (''notes'', File)]) =
     Inr [''root/modA''] \<and>
   readable nested_modules \<and>
   getModulePaths_v2 ''root'' nested_modules = Inr [''root/modA'', ''root/modA/charts/nested'']"
proof -
  have f: "flat [(''modA'', Dir [(''Chart.yaml'', File)]), (''notes'', File)]"
    by (simp add: flat_def)
  have r: "readable nested_modules"
    by (simp add: nested_modules_def)
  from getModulePaths_first_level_only
    [of "[(''modA'', Dir [(''Chart.yaml'', File)]), (''notes'', File)]" "''root''" nested_modules]
  show ?thesis
    using f r
    by (simp add: chart_dirs_def isExistsOnFilesystem_def ChartConfigFilename_def Join_def
        nested_modules_def is_module_v2_def ModuleYamlFilename_def)
qed

text \<open>
  Claim C5 as worded fails: a directory with the marker two levels below the root is
  not recorded by \<open>manager.go\<close>, and the second revision records a module nested in a
  module.
\<close>

theorem getModulePaths_depth_counterexample:
  "descend deep_tree [''group'', ''modA''] = Some (Dir [(''Chart.yaml'', File)]) \<and>
   isExistsOnFilesystem (Dir [(''Chart.yaml'', File)]) ChartConfigFilename \<and>
   getModulePaths ''root'' deep_tree = Inr [] \<and>
   getModulePaths_v2 ''root'' nested_modules = Inr [''root/modA'', ''root/modA/charts/nested'']"
  by (simp add: deep_tree_def nested_modules_def fs_eval)

text \<open>
  Claim C6, as the code has it. In \<open>pkg/manager/manager.go\<close> no directory below the
  root is entered: when no entry of the root holds \<open>Chart.yaml\<close> the result is empty,
  whatever the entries contain. In the second revision every directory is entered:
  in a tree without access errors, a directory with the markers that is reached from
  the root along any list of names is in the result.
\<close>

theorem getModulePaths_descent:
  "(flat es \<and> chart_dirs es = [] \<longrightarrow> getModulePaths root (Dir es) = Inr []) \<and>
   (readable info \<and> descend info names = Some sub \<and> is_module_v2 sub \<longrightarrow>
      (\<exists>ps. getModulePaths_v2 root info = Inr ps \<and> foldl Join root names \<in> set ps))"
proof (intro conjI impI)
  show "getModulePaths root (Dir es) = Inr []" if "flat es \<and> chart_dirs es = []"
    using that by (simp add: getModulePaths_first_level)
  show "\<exists>ps. getModulePaths_v2 root info = Inr ps \<and> foldl Join root names \<in> set ps"
    if "readable info \<and> descend info names = Some sub \<and> is_module_v2 sub"
    using that by (simp add: getModulePaths_v2_readable module_dirs_found)
qed

theorem getModulePaths_descent_witness:
  "flat [(''a'', Dir [(''b'', Dir [(''c'', Dir [(''Chart.yaml'', File)])])])] \<and>
   chart_dirs [(''a'', Dir [(''b'', Dir [(''c'', Dir [(''Chart.yaml'', File)])])])] = [] \<and>
   getModulePaths ''root'' three_deep = Inr [] \<and>
   readable deep_module \<and>
   descend deep_module [''a'', ''b''] = Some (Dir [(''module.yaml'', File)]) \<and>
   is_module_v2 (Dir [(''module.yaml'', File)]) \<and>
   (\<exists>ps. getModulePaths_v2 ''root'' deep_module = Inr ps \<and> ''root/a/b'' \<in> set ps)"
proof -
  have a: "flat [(''a'', Dir [(''b'', Dir [(''c'', Dir [(''Chart.yaml'', File)])])])] \<and>
      chart_dirs [(''a'', Dir [(''b'', Dir [(''c'', Dir [(''Chart.yaml'', File)])])])] = []"
    by (simp add: flat_def chart_dirs_def isExistsOnFilesystem_def ChartConfigFilename_def)
  have b: "readable deep_module \<and>
      descend deep_module [''a'', ''b''] = Some (Dir [(''module.yaml'', File)]) \<and>
      is_module_v2 (Dir [(''module.yaml'', File)])"
    by (simp add: deep_module_def is_module_v2_def isExistsOnFilesystem_def
        ModuleYamlFilename_def)
  from getModulePaths_descent
    [of "[(''a'', Dir [(''b'', Dir [(''c'', Dir [(''Chart.yaml'', File)])])])]" "''root''"
      deep_module "[''a'', ''b'']" "Dir [(''module.yaml'', File)]"]
  show ?thesis
    using a b by (simp add: three_deep_def Join_def)
qed

text \<open>
  Claim C6 as worded fails for \<open>pkg/manager/manager.go\<close>: the directories \<open>a\<close> and
  \<open>a/b\<close> hold no marker, yet the marker in \<open>a/b/c\<close> is not found.
\<close>

theorem getModulePaths_skips_counterexample:
  "descend three_deep [''a'', ''b'', ''c''] = Some (Dir [(''Chart.yaml'', File)]) \<and>
   \<not> isExistsOnFilesystem (Dir [(''b'', Dir [(''c'', Dir [(''Chart.yaml'', File)])])])
       ChartConfigFilename \<and>
   \<not> isExistsOnFilesystem (Dir [(''c'', Dir [(''Chart.yaml'', File)])]) ChartConfigFilename \<and>
   isExistsOnFilesystem (Dir [(''Chart.yaml'', File)]) ChartConfigFilename \<and>
   getModulePaths ''root'' three_deep = Inr []"
  by (simp add: three_deep_def fs_eval)

text \<open>
  Claim C7, as the code has it. \<open>getModulePaths\<close> of \<open>pkg/manager/manager.go\<close> never
  returns the search root, and a root whose only marker is its own yields no module.
  The second revision has no such test: a root that holds \<open>module.yaml\<close> is returned
  as a module.
\<close>

theorem getModulePaths_root:
  "(getModulePaths root info = Inr ps \<longrightarrow> root \<notin> set ps) \<and>
   getModulePaths root (Dir [(ChartConfigFilename, File)]) = Inr [] \<and>
   getModulePaths_v2 root (Dir [(ModuleYamlFilename, File)]) = Inr [root]"
proof (intro conjI impI)
  show "root \<notin> set ps" if "getModulePaths root info = Inr ps"
  proof
    assume "root \<in> set ps"
    with getModulePaths_below_root [OF that] obtain name where "root = Join root name"
      by blast
    then show False
      by (simp add: Join_def)
  qed
  show "getModulePaths root (Dir [(ChartConfigFilename, File)]) = Inr []"
    by (simp add: fs_eval)
  show "getModulePaths_v2 root (Dir [(ModuleYamlFilename, File)]) = Inr [root]"
    by (simp add: fs_eval)
qed

theorem getModulePaths_root_witness:
  "getModulePaths ''root'' stray_marker = Inr [''root/modA''] \<and>
   ''root'' \<notin> set [''root/modA'']"
proof -
  have "getModulePaths ''root'' stray_marker = Inr [''root/modA'']"
    by (simp add: stray_marker_def fs_eval)
  with getModulePaths_root [of "''root''" stray_marker "[''root/modA'']"]
  show ?thesis by blast
qed

text \<open>
  Claim C7 as worded fails for the second revision: a root that holds \<open>Chart.yaml\<close>
  and a \<open>hooks\<close> directory is classified as a module.
\<close>

theorem getModulePaths_v2_root_counterexample:
  "isExistsOnFilesystem root_module ChartConfigFilename \<and>
   getModulePaths_v2 ''root'' root_module = Inr [''root'']"
  by (simp add: root_module_def fs_eval)

section \<open>Properties of \<open>Run\<close>\<close>

lemma task_body_data: "data (task_body con t result) = data result @ findings_of t"
  by (auto simp: task_body_def findings_of_def Merge_def ConvertToError_def split: sum.splits)

lemma set_without_nth:
  "i < length xs \<Longrightarrow> set xs = insert (xs ! i) (set (take i xs @ drop (Suc i) xs))"
proof -
  assume "i < length xs"
  then have "xs = take i xs @ xs ! i # drop (Suc i) xs"
    by (rule id_take_nth_drop)
  then have "set xs = set (take i xs @ xs ! i # drop (Suc i) xs)"
    by simp
  then show ?thesis
    by simp
qed

lemma errgroup_collects:
  "errgroup limit con pending running result result' \<Longrightarrow>
   set (data result') =
     set (data result) \<union> (\<Union>t \<in> set pending \<union> set running. set (findings_of t))"
proof (induction rule: errgroup.induct)
  case (Wait result)
  then show ?case by simp
next
  case (Go running pending t result result')
  then show ?case by auto
next
  case (Done i running pending result result')
  from set_without_nth [OF Done.hyps(1)]
  have "(\<Union>t \<in> set running. set (findings_of t)) =
      set (findings_of (running ! i)) \<union>
      (\<Union>t \<in> set (take i running @ drop (Suc i) running). set (findings_of t))"
    by (metis UN_insert)
  with Done.IH show ?case
    by (simp add: task_body_data UN_Un) blast
qed

lemma run_groups_collects:
  "run_groups limit con gs result result' \<Longrightarrow>
   set (data result') = set (data result) \<union> (\<Union>t \<in> set (concat gs). set (findings_of t))"
proof (induction rule: run_groups.induct)
  case (Return result)
  then show ?case by simp
next
  case (Next tasks result result1 rest result')
  from errgroup_collects [OF Next.hyps(1)] Next.IH show ?case
    by (simp add: Un_assoc UN_Un)
qed

lemma errgroup_drains:
  "errgroup limit con [] running result (fold (task_body con) running result)"
proof (induction running arbitrary: result)
  case Nil
  show ?case by (simp add: errgroup.Wait)
next
  case (Cons t running)
  have "errgroup limit con [] (take 0 (t # running) @ drop (Suc 0) (t # running))
      (task_body con ((t # running) ! 0) result)
      (fold (task_body con) running (task_body con t result))"
    using Cons.IH [of "task_body con t result"] by simp
  then have "errgroup limit con [] (t # running) result
      (fold (task_body con) running (task_body con t result))"
    by (rule errgroup.Done [rotated]) simp
  then show ?case by simp
qed

lemma errgroup_in_turn:
  assumes "limit \<noteq> 0"
  shows "errgroup limit con pending [] result (fold (task_body con) pending result)"
proof (induction pending arbitrary: result)
  case Nil
  show ?case by (simp add: errgroup.Wait)
next
  case (Cons t pending)
  have "errgroup limit con pending (take 0 [t] @ drop (Suc 0) [t])
      (task_body con ([t] ! 0) result) (fold (task_body con) pending (task_body con t result))"
    using Cons.IH [of "task_body con t result"] by simp
  then have "errgroup limit con pending [t] result
      (fold (task_body con) pending (task_body con t result))"
    by (rule errgroup.Done [rotated]) simp
  then have started: "errgroup limit con pending ([] @ [t]) result
      (fold (task_body con) pending (task_body con t result))"
    by simp
  have "may_start limit []"
    using assms by (auto simp: may_start_def)
  from errgroup.Go [OF this started] show ?case
    by simp
qed

lemma run_groups_in_turn:
  assumes "limit \<noteq> 0"
  shows "run_groups limit con gs result (in_turn con gs result)"
proof (induction gs arbitrary: result)
  case Nil
  show ?case by (simp add: in_turn_def run_groups.Return)
next
  case (Cons tasks gs)
  have "errgroup limit con tasks [] result (fold (task_body con) tasks result)"
    using assms by (rule errgroup_in_turn)
  moreover have "run_groups limit con gs (fold (task_body con) tasks result)
      (in_turn con (tasks # gs) result)"
    using Cons.IH [of "fold (task_body con) tasks result"] by (simp add: in_turn_def)
  ultimately show ?case
    by (rule run_groups.Next)
qed


text \<open>From every state of a group some schedule reaches the end, unless the limit is 0.\<close>

lemma errgroup_finishes:
  assumes "limit \<noteq> 0"
  shows "errgroup limit con pending running result
     (fold (task_body con) pending (fold (task_body con) running result))"
proof (induction running arbitrary: result)
  case Nil
  show ?case
    using assms by (simp add: errgroup_in_turn)
next
  case (Cons t running)
  have "errgroup limit con pending (take 0 (t # running) @ drop (Suc 0) (t # running))
      (task_body con ((t # running) ! 0) result)
      (fold (task_body con) pending (fold (task_body con) running (task_body con t result)))"
    using Cons.IH [of "task_body con t result"] by simp
  then have "errgroup limit con pending (t # running) result
      (fold (task_body con) pending (fold (task_body con) running (task_body con t result)))"
    by (rule errgroup.Done [rotated]) simp
  then show ?case by simp
qed

lemma Manager_Run_in_turn:
  "Manager_Run con Linters Modules
     (in_turn con (map (\<lambda>linter. map (\<lambda>module. (linter, module)) Modules) Linters) empty_list)"
  unfolding Manager_Run_def by (rule run_groups_in_turn) (simp add: modulesLimit_def)

lemma Manager_Run_v2_in_turn:
  "LintersLimit \<noteq> 0 \<Longrightarrow>
   Manager_Run_v2 LintersLimit con Linters Modules
     (in_turn con (map (\<lambda>module. map (\<lambda>linter. (linter, module)) Linters) Modules) empty_list)"
  unfolding Manager_Run_v2_def by (rule run_groups_in_turn)

lemma pair_findings:
  "Run linter module = Inr errs \<Longrightarrow> findings_of (linter, module) = data errs"
  by (simp add: findings_of_def)

text \<open>
  Claim C1. \<open>Run\<close> returns, and whatever the schedule, the list it returns contains
  the findings of every pair of a linter and a module whose \<open>Run\<close> returned a finding
  list; this holds whichever other pairs returned an error. Both revisions of \<open>Run\<close>
  are covered (the second one returns when its limit is not 0).
\<close>

theorem Manager_Run_isolates_failures:
  "(\<exists>result. Manager_Run con Linters Modules result) \<and>
   (Manager_Run con Linters Modules result \<and> linter \<in> set Linters \<and> module \<in> set Modules \<and>
    Run linter module = Inr errs \<longrightarrow> set (data errs) \<subseteq> set (data result)) \<and>
   (LintersLimit \<noteq> 0 \<longrightarrow> (\<exists>result. Manager_Run_v2 LintersLimit con Linters Modules result)) \<and>
   (Manager_Run_v2 LintersLimit con Linters Modules result \<and> linter \<in> set Linters \<and>
    module \<in> set Modules \<and> Run linter module = Inr errs \<longrightarrow>
      set (data errs) \<subseteq> set (data result))"
proof (intro conjI impI)
  show "\<exists>result. Manager_Run con Linters Modules result"
    using Manager_Run_in_turn by blast
  show "\<exists>result. Manager_Run_v2 LintersLimit con Linters Modules result" if "LintersLimit \<noteq> 0"
    using Manager_Run_v2_in_turn [OF that] by blast
  show "set (data errs) \<subseteq> set (data result)"
    if h: "Manager_Run con Linters Modules result \<and> linter \<in> set Linters \<and>
      module \<in> set Modules \<and> Run linter module = Inr errs"
  proof -
    from h have "(linter, module) \<in>
        set (concat (map (\<lambda>linter. map (\<lambda>module. (linter, module)) Modules) Linters))"
      by auto
    moreover from h have "run_groups modulesLimit con
        (map (\<lambda>linter. map (\<lambda>module. (linter, module)) Modules) Linters) empty_list result"
      by (simp add: Manager_Run_def)
    then have "set (data result) = set (data empty_list) \<union>
        (\<Union>t \<in> set (concat (map (\<lambda>linter. map (\<lambda>module. (linter, module)) Modules) Linters)).
          set (findings_of t))"
      by (rule run_groups_collects)
    ultimately have "set (findings_of (linter, module)) \<subseteq> set (data result)"
      by blast
    with h show ?thesis
      by (simp add: pair_findings)
  qed
  show "set (data errs) \<subseteq> set (data result)"
    if h: "Manager_Run_v2 LintersLimit con Linters Modules result \<and> linter \<in> set Linters \<and>
      module \<in> set Modules \<and> Run linter module = Inr errs"
  proof -
    from h have "(linter, module) \<in>
        set (concat (map (\<lambda>module. map (\<lambda>linter. (linter, module)) Linters) Modules))"
      by auto
    moreover from h have "run_groups LintersLimit con
        (map (\<lambda>module. map (\<lambda>linter. (linter, module)) Linters) Modules) empty_list result"
      by (simp add: Manager_Run_v2_def)
    then have "set (data result) = set (data empty_list) \<union>
        (\<Union>t \<in> set (concat (map (\<lambda>module. map (\<lambda>linter. (linter, module)) Linters) Modules)).
          set (findings_of t))"
      by (rule run_groups_collects)
    ultimately have "set (findings_of (linter, module)) \<subseteq> set (data result)"
      by blast
    with h show ?thesis
      by (simp add: pair_findings)
  qed
qed

lemma in_turn_example:
  "in_turn plain_console
     (map (\<lambda>linter. map (\<lambda>module. (linter, module)) [''mod-a'', ''mod-b'']) [flaky, steady])
     empty_list =
   \<lparr>data = [finding_for ''flaky'' ''mod-b'', finding_for ''steady'' ''mod-a'',
            finding_for ''steady'' ''mod-b'']\<rparr>"
  by (simp add: in_turn_def task_body_def flaky_def steady_def ConvertToError_def Merge_def
      empty_list_def)

lemma in_turn_example_v2:
  "in_turn plain_console
     (map (\<lambda>module. map (\<lambda>linter. (linter, module)) [flaky, steady]) [''mod-a'', ''mod-b''])
     empty_list =
   \<lparr>data = [finding_for ''steady'' ''mod-a'', finding_for ''flaky'' ''mod-b'',
            finding_for ''steady'' ''mod-b'']\<rparr>"
  by (simp add: in_turn_def task_body_def flaky_def steady_def ConvertToError_def Merge_def
      empty_list_def)

theorem Manager_Run_isolates_failures_witness:
  "Run flaky ''mod-a'' = Inl ''cannot render'' \<and>
   Manager_Run plain_console [flaky, steady] [''mod-a'', ''mod-b'']
     \<lparr>data = [finding_for ''flaky'' ''mod-b'', finding_for ''steady'' ''mod-a'',
              finding_for ''steady'' ''mod-b'']\<rparr> \<and>
   Run steady ''mod-a'' = Inr \<lparr>data = [finding_for ''steady'' ''mod-a'']\<rparr> \<and>
   set [finding_for ''steady'' ''mod-a''] \<subseteq>
     set [finding_for ''flaky'' ''mod-b'', finding_for ''steady'' ''mod-a'',
          finding_for ''steady'' ''mod-b''] \<and>
   (1::int) \<noteq> 0 \<and>
   Manager_Run_v2 1 plain_console [flaky, steady] [''mod-a'', ''mod-b'']
     \<lparr>data = [finding_for ''steady'' ''mod-a'', finding_for ''flaky'' ''mod-b'',
              finding_for ''steady'' ''mod-b'']\<rparr> \<and>
   set [finding_for ''steady'' ''mod-a''] \<subseteq>
     set [finding_for ''steady'' ''mod-a'', finding_for ''flaky'' ''mod-b'',
          finding_for ''steady'' ''mod-b'']"
proof -
  let ?r1 = "\<lparr>data = [finding_for ''flaky'' ''mod-b'', finding_for ''steady'' ''mod-a'',
      finding_for ''steady'' ''mod-b'']\<rparr>"
  let ?r2 = "\<lparr>data = [finding_for ''steady'' ''mod-a'', finding_for ''flaky'' ''mod-b'',
      finding_for ''steady'' ''mod-b'']\<rparr>"
  have a: "Run flaky ''mod-a'' = Inl ''cannot render''"
    by (simp add: flaky_def)
  have b: "Run steady ''mod-a'' = Inr \<lparr>data = [finding_for ''steady'' ''mod-a'']\<rparr>"
    by (simp add: steady_def)
  have r1: "Manager_Run plain_console [flaky, steady] [''mod-a'', ''mod-b''] ?r1"
    using Manager_Run_in_turn [of plain_console "[flaky, steady]" "[''mod-a'', ''mod-b'']"]
    by (simp only: in_turn_example)
  have r2: "Manager_Run_v2 1 plain_console [flaky, steady] [''mod-a'', ''mod-b''] ?r2"
    using Manager_Run_v2_in_turn [of 1 plain_console "[flaky, steady]" "[''mod-a'', ''mod-b'']"]
    by (simp only: in_turn_example_v2)
  have "set (data \<lparr>data = [finding_for ''steady'' ''mod-a'']\<rparr>) \<subseteq> set (data ?r1)"
    using Manager_Run_isolates_failures
      [of plain_console "[flaky, steady]" "[''mod-a'', ''mod-b'']" ?r1 steady "''mod-a''"
        "\<lparr>data = [finding_for ''steady'' ''mod-a'']\<rparr>" 1]
      r1 b by simp
  moreover
  have "set (data \<lparr>data = [finding_for ''steady'' ''mod-a'']\<rparr>) \<subseteq> set (data ?r2)"
    using Manager_Run_isolates_failures
      [of plain_console "[flaky, steady]" "[''mod-a'', ''mod-b'']" ?r2 steady "''mod-a''"
        "\<lparr>data = [finding_for ''steady'' ''mod-a'']\<rparr>" 1]
      r2 b by simp
  ultimately show ?thesis
    using a b r1 r2 by simp
qed

section \<open>Properties of \<open>RunRender\<close>\<close>

lemma RunRender_keeps:
  "renderedTemplatesHash \<subseteq> hashes_after env m values objectStore renderedTemplatesHash"
  by (auto simp: hashes_after_def RunRender_def Load_def Store_def split: sum.splits prod.splits)

lemma RunRenders_keeps: "renderedTemplatesHash \<subseteq> RunRenders env calls renderedTemplatesHash"
proof (induction calls arbitrary: renderedTemplatesHash)
  case Nil
  show ?case by simp
next
  case (Cons call calls)
  obtain m vals objectStore where call: "call = (m, vals, objectStore)"
    by (cases call)
  have "renderedTemplatesHash \<subseteq> hashes_after env m vals objectStore renderedTemplatesHash"
    by (rule RunRender_keeps)
  also have "\<dots> \<subseteq> RunRenders env calls
      (hashes_after env m vals objectStore renderedTemplatesHash)"
    by (rule Cons.IH)
  finally show ?case
    by (simp add: call hashes_after_def)
qed

lemma RunRender_marks:
  assumes "RenderChartFromRawValues env m values = Inr files" and "Hash env files = Inr hash"
  shows "hash \<in> hashes_after env m values objectStore renderedTemplatesHash"
  using assms
  by (auto simp: hashes_after_def RunRender_def Load_def Store_def split: prod.splits)

lemma RunRender_seen:
  assumes "RenderChartFromRawValues env m values = Inr files" and "Hash env files = Inr hash"
    and "hash \<in> renderedTemplatesHash"
  shows "RunRender env m values objectStore renderedTemplatesHash =
    (None, objectStore, renderedTemplatesHash)"
  using assms by (simp add: RunRender_def Load_def)


lemma RunRender_in_steps:
  assumes "RenderChartFromRawValues env m values = Inr files" and "Hash env files = Inr hash"
  shows "hashes_after env m values objectStore renderedTemplatesHash =
      snd (step hash (fst (step hash Ready renderedTemplatesHash))
        (snd (step hash Ready renderedTemplatesHash)))"
    and "fst (step hash Ready renderedTemplatesHash) = Skipped \<longleftrightarrow>
      Load renderedTemplatesHash hash"
  using assms
  by (auto simp: hashes_after_def RunRender_def Load_def Store_def split: prod.splits)

text \<open>
  Claim C10. When a call of \<open>RunRender\<close> has rendered and hashed its output, the hash
  is in the map after the call, whatever error the call returns. Every later call
  whose output has the same hash, after any calls in between, returns nil at once and
  leaves its object store and the map as they are.
\<close>

theorem RunRender_marks_whatever_the_error:
  "RenderChartFromRawValues env m values = Inr files \<and> Hash env files = Inr hash \<longrightarrow>
     hash \<in> hashes_after env m values objectStore renderedTemplatesHash \<and>
     (RenderChartFromRawValues env m' values' = Inr files' \<and> Hash env files' = Inr hash \<longrightarrow>
        RunRender env m' values' objectStore'
          (RunRenders env calls (hashes_after env m values objectStore renderedTemplatesHash)) =
        (None, objectStore',
          RunRenders env calls (hashes_after env m values objectStore renderedTemplatesHash)))"
proof (intro impI conjI)
  assume first: "RenderChartFromRawValues env m values = Inr files \<and> Hash env files = Inr hash"
  then show marked: "hash \<in> hashes_after env m values objectStore renderedTemplatesHash"
    by (simp add: RunRender_marks)
  assume later: "RenderChartFromRawValues env m' values' = Inr files' \<and>
    Hash env files' = Inr hash"
  from marked RunRenders_keeps
  have "hash \<in> RunRenders env calls (hashes_after env m values objectStore renderedTemplatesHash)"
    by blast
  with later show "RunRender env m' values' objectStore'
      (RunRenders env calls (hashes_after env m values objectStore renderedTemplatesHash)) =
    (None, objectStore',
      RunRenders env calls (hashes_after env m values objectStore renderedTemplatesHash))"
    by (simp add: RunRender_seen)
qed

lemma Index_bad: "Index ''bad'' ''---'' = None"
  by (simp add: prefix_Cons)

lemma scan_tokens_Nil: "scan_tokens substring [] = []"
  by (subst scan_tokens.simps) (simp add: SplitAt_def)

lemma scan_bad: "scan_tokens separator ''bad'' = [''bad'']"
  by (subst scan_tokens.simps) (simp add: separator_def SplitAt_def Index_bad scan_tokens_Nil)

lemma toy_first:
  "RunRender toy_env ''bad'' () [] {} =
     (Some (manifestErrorMessage ''yaml: did not find expected key''
        (numerateManifestLines ''bad'')), [], {3})"
  by (simp add: RunRender_def toy_env_def Load_def Store_def scan_bad)

theorem RunRender_marks_whatever_the_error_witness:
  "RenderChartFromRawValues toy_env ''bad'' () = Inr [(''templates/a.yaml'', ''bad'')] \<and>
   Hash toy_env [(''templates/a.yaml'', ''bad'')] = Inr 3 \<and>
   RunRender toy_env ''bad'' () [] {} =
     (Some (manifestErrorMessage ''yaml: did not find expected key''
        (numerateManifestLines ''bad'')), [], {3}) \<and>
   RunRender toy_env ''bad'' () [] {3} = (None, [], {3})"
proof -
  have a: "RenderChartFromRawValues toy_env ''bad'' () = Inr [(''templates/a.yaml'', ''bad'')] \<and>
      Hash toy_env [(''templates/a.yaml'', ''bad'')] = Inr 3"
    by (simp add: toy_env_def)
  have h: "hashes_after toy_env ''bad'' () [] {} = {3}"
    by (simp add: hashes_after_def toy_first)
  from RunRender_marks_whatever_the_error
    [of toy_env "''bad''" "()" "[(''templates/a.yaml'', ''bad'')]" 3 "[]" "{}"
      "''bad''" "()" "[(''templates/a.yaml'', ''bad'')]" "[]" "[]"]
  have "RunRender toy_env ''bad'' () [] {3} = (None, [], {3})"
    using a by (simp add: h)
  with a toy_first show ?thesis
    by simp
qed


lemma step_settled:
  "settled hash (a, b, hashes) \<Longrightarrow> step hash a hashes = (a', hashes') \<Longrightarrow>
   settled hash (a', b, hashes')"
  "settled hash (a, b, hashes) \<Longrightarrow> step hash b hashes = (b', hashes') \<Longrightarrow>
   settled hash (a, b', hashes')"
  by (cases a; cases b; auto simp: settled_def Load_def Store_def split: if_splits)+

lemma interleave_settled:
  "settled hash st \<Longrightarrow> settled hash (interleave hash schedule st)"
proof (induction schedule arbitrary: st)
  case Nil
  then show ?case by simp
next
  case (Cons second schedule)
  obtain a b hashes where st: "st = (a, b, hashes)"
    by (cases st)
  show ?case
  proof (cases second)
    case True
    obtain b' hashes' where s: "step hash b hashes = (b', hashes')"
      by (cases "step hash b hashes")
    from Cons.prems have "settled hash (a, b', hashes')"
      unfolding st using s by (rule step_settled(2))
    then have "settled hash (interleave hash schedule (a, b', hashes'))"
      by (rule Cons.IH)
    with True s show ?thesis
      by (simp add: st)
  next
    case False
    obtain a' hashes' where s: "step hash a hashes = (a', hashes')"
      by (cases "step hash a hashes")
    from Cons.prems have "settled hash (a', b, hashes')"
      unfolding st using s by (rule step_settled(1))
    then have "settled hash (interleave hash schedule (a', b, hashes'))"
      by (rule Cons.IH)
    with False s show ?thesis
      by (simp add: st)
  qed
qed

lemma interleave_after_mark:
  "hash \<in> hashes \<Longrightarrow> b = Ready \<or> b = Skipped \<Longrightarrow>
   \<exists>b'. interleave hash schedule (Marked, b, hashes) = (Marked, b', hashes) \<and>
     (b' = Ready \<or> b' = Skipped)"
proof (induction schedule arbitrary: b)
  case Nil
  then show ?case by simp
next
  case (Cons second schedule)
  show ?case
  proof (cases second)
    case True
    from Cons.prems have "step hash b hashes = (Skipped, hashes)"
      by (auto simp: Load_def)
    with True Cons.IH [of Skipped] Cons.prems(1) show ?thesis
      by simp
  next
    case False
    with Cons.IH [of b] Cons.prems show ?thesis
      by simp
  qed
qed

text \<open>
  Claim C2, as the code has it. When the first caller has returned before the second
  caller checks, the first validates and marks and the second skips. In every
  interleaving of two callers, once both have returned the hash is in the map and at
  least one of them has validated.
\<close>

theorem RunRender_check_then_mark:
  "(hash \<notin> hashes \<longrightarrow>
      (\<exists>b. interleave hash (False # False # rest) (Ready, Ready, hashes) =
             (Marked, b, Store hashes hash) \<and> (b = Ready \<or> b = Skipped))) \<and>
   (hash \<notin> hashes \<and> interleave hash schedule (Ready, Ready, hashes) = (a, b, hashes') \<and>
    returned a \<and> returned b \<longrightarrow> hash \<in> hashes' \<and> (a = Marked \<or> b = Marked))"
proof (rule conjI; rule impI)
  assume "hash \<notin> hashes"
  then have "interleave hash (False # False # rest) (Ready, Ready, hashes) =
      interleave hash rest (Marked, Ready, Store hashes hash)"
    by (simp add: Load_def)
  moreover have "\<exists>b'. interleave hash rest (Marked, Ready, Store hashes hash) =
      (Marked, b', Store hashes hash) \<and> (b' = Ready \<or> b' = Skipped)"
    by (rule interleave_after_mark) (simp_all add: Store_def)
  ultimately show "\<exists>b. interleave hash (False # False # rest) (Ready, Ready, hashes) =
      (Marked, b, Store hashes hash) \<and> (b = Ready \<or> b = Skipped)"
    by simp
next
  assume h: "hash \<notin> hashes \<and> interleave hash schedule (Ready, Ready, hashes) = (a, b, hashes') \<and>
    returned a \<and> returned b"
  then have "settled hash (Ready, Ready, hashes)"
    by (simp add: settled_def)
  then have "settled hash (interleave hash schedule (Ready, Ready, hashes))"
    by (rule interleave_settled)
  with h have "settled hash (a, b, hashes')"
    by simp
  with h show "hash \<in> hashes' \<and> (a = Marked \<or> b = Marked)"
    by (auto simp: settled_def returned_def)
qed

theorem RunRender_check_then_mark_witness:
  "(7::64 word) \<notin> {} \<and>
   interleave 7 [False, False, True] (Ready, Ready, {}) = (Marked, Skipped, {7}) \<and>
   interleave 7 [True, False, True, False] (Ready, Ready, {}) = (Marked, Marked, {7}) \<and>
   returned Marked \<and> 7 \<in> {7::64 word}"
proof -
  have run: "interleave 7 [True, False, True, False] (Ready, Ready, {}) = (Marked, Marked, {7})"
    by (simp add: Load_def Store_def)
  have seq: "interleave 7 [False, False, True] (Ready, Ready, {}) = (Marked, Skipped, {7})"
    by (simp add: Load_def Store_def)
  from RunRender_check_then_mark
    [of 7 "{}" "[True]" "[True, False, True, False]" Marked Marked "{7}"]
  show ?thesis
    using run seq by (simp add: returned_def Store_def)
qed

text \<open>
  Claim C2 as worded fails: when both callers check before either marks, both observe
  the hash as new and both validate.
\<close>

theorem RunRender_race_counterexample:
  "interleave 7 [False, True, False, True] (Ready, Ready, {}) = (Marked, Marked, {7}) \<and>
   fst (step 7 Ready {}) = Validating \<and>
   fst (step 7 Ready (snd (step 7 Ready {}))) = Validating"
  by (simp add: Load_def Store_def)

end
